theory Spec2Isabelle
  imports Main
begin

section \<open>Python's calendar arithmetic, as used by \<open>core_apps/events/business.py\<close>\<close>

text \<open>
  The repository computes its date ranges with \<open>datetime.date\<close>, \<open>timedelta\<close>,
  \<open>datetime.strptime\<close> and \<open>calendar.monthrange\<close>.  The definitions of this
  section follow the standard library (\<open>Lib/_pydatetime.py\<close>, \<open>Lib/calendar.py\<close>,
  \<open>Lib/_strptime.py\<close>): Python integers are \<open>int\<close>, a raised exception is the
  left summand of a sum type.  The exceptions that occur are \<open>ValueError\<close> and
  \<open>OverflowError\<close> of Python, and \<open>IntegrityError\<close> and \<open>MultipleObjectsReturned\<close>
  of the database layer.
\<close>

datatype py_exception = ValueError | OverflowError | IntegrityError | MultipleObjectsReturned

record date =
  year :: int
  month :: int
  day :: int

definition MINYEAR :: int where
  "MINYEAR = 1"

definition MAXYEAR :: int where
  "MAXYEAR = 9999"

definition MAXORDINAL :: int where
  "MAXORDINAL = 3652059"

definition DAYS_IN_MONTH :: "int list" where
  "DAYS_IN_MONTH = [-1, 31, 28, 31, 30, 31, 30, 31, 31, 30, 31, 30, 31]"

definition DAYS_BEFORE_MONTH :: "int list" where
  "DAYS_BEFORE_MONTH = [-1, 0, 31, 59, 90, 120, 151, 181, 212, 243, 273, 304, 334]"

definition bool_int :: "bool \<Rightarrow> int" where
  "bool_int b = (if b then 1 else 0)"

definition is_leap :: "int \<Rightarrow> bool" where
  "is_leap y = (y mod 4 = 0 \<and> (y mod 100 \<noteq> 0 \<or> y mod 400 = 0))"

definition days_before_year :: "int \<Rightarrow> int" where
  "days_before_year y = (y - 1) * 365 + (y - 1) div 4 - (y - 1) div 100 + (y - 1) div 400"

definition days_in_month :: "int \<Rightarrow> int \<Rightarrow> int" where
  "days_in_month y m = (if m = 2 \<and> is_leap y then 29 else DAYS_IN_MONTH ! nat m)"

definition days_before_month :: "int \<Rightarrow> int \<Rightarrow> int" where
  "days_before_month y m = DAYS_BEFORE_MONTH ! nat m + bool_int (m > 2 \<and> is_leap y)"

definition ymd2ord :: "int \<Rightarrow> int \<Rightarrow> int \<Rightarrow> int" where
  "ymd2ord y m d = days_before_year y + days_before_month y m + d"

definition DI400Y :: int where
  "DI400Y = 146097"

definition DI100Y :: int where
  "DI100Y = 36524"

definition DI4Y :: int where
  "DI4Y = 1461"

text \<open>
  The tail of \<open>_ord2ymd\<close>: from the zero-based day \<open>n\<close> of a year and the year's
  leap flag to month and day.  The month is estimated by a shift and corrected once.
\<close>

definition month_day_of :: "bool \<Rightarrow> int \<Rightarrow> int \<times> int" where
  "month_day_of leapyear n =
     (let m = (n + 50) div 32;
          preceding = DAYS_BEFORE_MONTH ! nat m + bool_int (m > 2 \<and> leapyear)
      in if preceding > n
         then let m = m - 1;
                  preceding = preceding - (DAYS_IN_MONTH ! nat m + bool_int (m = 2 \<and> leapyear))
              in (m, n - preceding + 1)
         else (m, n - preceding + 1))"

definition ord2ymd :: "int \<Rightarrow> int \<times> int \<times> int" where
  "ord2ymd n0 =
     (let n = n0 - 1;
          n400 = n div DI400Y; n = n mod DI400Y;
          y = n400 * 400 + 1;
          n100 = n div DI100Y; n = n mod DI100Y;
          n4 = n div DI4Y; n = n mod DI4Y;
          n1 = n div 365; n = n mod 365;
          y = y + (n100 * 100 + n4 * 4 + n1)
      in if n1 = 4 \<or> n100 = 4 then (y - 1, 12, 31)
         else (y, month_day_of (n1 = 3 \<and> (n4 \<noteq> 24 \<or> n100 = 3)) n))"

text \<open>\<open>_check_date_fields\<close>: the test the \<open>date\<close> constructor applies.\<close>

definition check_date_fields :: "int \<Rightarrow> int \<Rightarrow> int \<Rightarrow> bool" where
  "check_date_fields y m d =
     (MINYEAR \<le> y \<and> y \<le> MAXYEAR \<and> 1 \<le> m \<and> m \<le> 12 \<and> 1 \<le> d \<and> d \<le> days_in_month y m)"

definition date_new :: "int \<Rightarrow> int \<Rightarrow> int \<Rightarrow> py_exception + date" where
  "date_new y m d =
     (if check_date_fields y m d then Inr \<lparr>year = y, month = m, day = d\<rparr> else Inl ValueError)"

definition valid_date :: "date \<Rightarrow> bool" where
  "valid_date d = check_date_fields (year d) (month d) (day d)"

definition toordinal :: "date \<Rightarrow> int" where
  "toordinal d = ymd2ord (year d) (month d) (day d)"

definition fromordinal :: "int \<Rightarrow> date" where
  "fromordinal n = (case ord2ymd n of (y, m, d) \<Rightarrow> \<lparr>year = y, month = m, day = d\<rparr>)"

definition weekday :: "date \<Rightarrow> int" where
  "weekday d = (toordinal d + 6) mod 7"

text \<open>\<open>date + timedelta(days=k)\<close> and \<open>date - timedelta(days=k)\<close>.\<close>

definition date_add :: "date \<Rightarrow> int \<Rightarrow> py_exception + date" where
  "date_add d k =
     (let o' = toordinal d + k
      in if 0 < o' \<and> o' \<le> MAXORDINAL then Inr (fromordinal o') else Inl OverflowError)"

definition date_sub :: "date \<Rightarrow> int \<Rightarrow> py_exception + date" where
  "date_sub d k = date_add d (- k)"

text \<open>\<open>(d1 - d2).days\<close> for two dates.\<close>

definition date_diff_days :: "date \<Rightarrow> date \<Rightarrow> int" where
  "date_diff_days d1 d2 = toordinal d1 - toordinal d2"

text \<open>\<open>date.replace(day=k)\<close>: a new date, checked by the constructor.\<close>

definition replace_day :: "date \<Rightarrow> int \<Rightarrow> py_exception + date" where
  "replace_day d k = date_new (year d) (month d) k"

text \<open>Comparison of dates is comparison of the triples (year, month, day).\<close>

definition date_le :: "date \<Rightarrow> date \<Rightarrow> bool" where
  "date_le a b =
     (year a < year b \<or> (year a = year b \<and> (month a < month b \<or> (month a = month b \<and> day a \<le> day b))))"

subsection \<open>Text: \<open>str(date)\<close> and \<open>datetime.strptime(s, "%Y-%m-%d")\<close>\<close>

text \<open>
  A Python string is a sequence of Unicode characters.  The program compares the
  characters of a date text with characters of ASCII, asks whether they are decimal
  digits (the class \<^verbatim>\<open>\d\<close> of a regular expression: every character of the
  category Nd), and reads the value of a digit (\<open>int\<close>).  A character is therefore
  given with what the Unicode database says of it: \<open>Ch c\<close> is a character up to
  U+00FF, among which the decimal digits are \<open>0\<close> to \<open>9\<close>; \<open>Nd k v\<close> is a
  decimal digit beyond U+00FF, the digit of value \<open>v\<close> in the \<open>k\<close>-th set of
  digits; \<open>Uc n\<close> is any other character beyond U+00FF, with its code point.
\<close>

datatype decimal = D0 | D1 | D2 | D3 | D4 | D5 | D6 | D7 | D8 | D9

fun decimal_value :: "decimal \<Rightarrow> int" where
  "decimal_value D0 = 0"
| "decimal_value D1 = 1"
| "decimal_value D2 = 2"
| "decimal_value D3 = 3"
| "decimal_value D4 = 4"
| "decimal_value D5 = 5"
| "decimal_value D6 = 6"
| "decimal_value D7 = 7"
| "decimal_value D8 = 8"
| "decimal_value D9 = 9"

datatype uchar = Ch char | Nd nat decimal | Uc nat

type_synonym str = "uchar list"

text \<open>A string constant of the program (its characters are of ASCII).\<close>

definition str_of :: "string \<Rightarrow> str" where
  "str_of s = map Ch s"

text \<open>
  \<open>str(date)\<close> is \<open>date.isoformat()\<close>: the year in four digits, the month and the day
  in two, padded with zeros (the format \<open>%04d-%02d-%02d\<close>), for the non-negative
  fields of a date.
\<close>

definition digit_char :: "nat \<Rightarrow> char" where
  "digit_char k = ''0123456789'' ! k"

fun digits_of :: "nat \<Rightarrow> string" where
  "digits_of n = (if n < 10 then [digit_char n] else digits_of (n div 10) @ [digit_char (n mod 10)])"

definition zero_pad :: "nat \<Rightarrow> int \<Rightarrow> string" where
  "zero_pad w k = (let s = digits_of (nat k) in replicate (w - length s) (CHR ''0'') @ s)"

definition isoformat :: "date \<Rightarrow> str" where
  "isoformat d =
     str_of (zero_pad 4 (year d) @ ''-'' @ zero_pad 2 (month d) @ ''-'' @ zero_pad 2 (day d))"

text \<open>
  \<open>strptime\<close> turns the format \<open>%Y-%m-%d\<close> into the regular expression
  \<^verbatim>\<open>(?P<Y>\d\d\d\d)-(?P<m>1[0-2]|0[1-9]|[1-9])-(?P<d>3[0-1]|[1-2]\d|0[1-9]|[1-9]| [1-9])\<close>,
  matches it at the start of the text, and raises \<open>ValueError\<close> when there is no match,
  when text remains after the match, or when the matched numbers are not a date.
  A matcher gives all its matches (the matched text and the rest), in the order in which
  the backtracking matcher tries them; the match of the whole expression is the first
  of the list.  The classes \<open>[1-9]\<close>, \<open>[0-2]\<close>, \<open>[1-2]\<close> and \<open>[0-1]\<close> hold
  characters of ASCII only; \<^verbatim>\<open>\d\<close> holds every decimal digit.
\<close>

definition in_class :: "char \<Rightarrow> char \<Rightarrow> uchar \<Rightarrow> bool" where
  "in_class lo hi c =
     (case c of
        Ch x \<Rightarrow> (of_char lo :: nat) \<le> of_char x \<and> (of_char x :: nat) \<le> of_char hi
      | _ \<Rightarrow> False)"

definition isdigit :: "uchar \<Rightarrow> bool" where
  "isdigit c =
     (case c of
        Ch x \<Rightarrow> in_class (CHR ''0'') (CHR ''9'') c
      | Nd k v \<Rightarrow> True
      | Uc n \<Rightarrow> False)"

definition digit_val :: "uchar \<Rightarrow> int" where
  "digit_val c =
     (case c of
        Ch x \<Rightarrow> int (of_char x) - 48
      | Nd k v \<Rightarrow> decimal_value v
      | Uc n \<Rightarrow> 0)"

text \<open>\<open>int(s)\<close> for a text of decimal digits after optional spaces.\<close>

definition py_int :: "str \<Rightarrow> int" where
  "py_int s = foldl (\<lambda>acc c. 10 * acc + digit_val c) 0 (dropWhile (\<lambda>c. c = Ch (CHR '' '')) s)"

type_synonym matcher = "str \<Rightarrow> (str \<times> str) list"

fun re_char :: "(uchar \<Rightarrow> bool) \<Rightarrow> matcher" where
  "re_char p [] = []"
| "re_char p (c # cs) = (if p c then [([c], cs)] else [])"

definition re_seq :: "matcher \<Rightarrow> matcher \<Rightarrow> matcher" where
  "re_seq f g s = concat (map (\<lambda>(u, r). map (\<lambda>(v, r'). (u @ v, r')) (g r)) (f s))"

definition re_alt :: "matcher \<Rightarrow> matcher \<Rightarrow> matcher" where
  "re_alt f g s = f s @ g s"

definition re_lit :: "char \<Rightarrow> matcher" where
  "re_lit c = re_char (\<lambda>x. x = Ch c)"

definition re_range :: "char \<Rightarrow> char \<Rightarrow> matcher" where
  "re_range lo hi = re_char (in_class lo hi)"

definition re_digit :: matcher where
  "re_digit = re_char isdigit"

definition re_Y :: matcher where
  "re_Y = re_seq re_digit (re_seq re_digit (re_seq re_digit re_digit))"

definition re_m :: matcher where
  "re_m = re_alt (re_seq (re_lit (CHR ''1'')) (re_range (CHR ''0'') (CHR ''2'')))
         (re_alt (re_seq (re_lit (CHR ''0'')) (re_range (CHR ''1'') (CHR ''9'')))
                 (re_range (CHR ''1'') (CHR ''9'')))"

definition re_d :: matcher where
  "re_d = re_alt (re_seq (re_lit (CHR ''3'')) (re_range (CHR ''0'') (CHR ''1'')))
         (re_alt (re_seq (re_range (CHR ''1'') (CHR ''2'')) re_digit)
         (re_alt (re_seq (re_lit (CHR ''0'')) (re_range (CHR ''1'') (CHR ''9'')))
         (re_alt (re_range (CHR ''1'') (CHR ''9''))
                 (re_seq (re_lit (CHR '' '')) (re_range (CHR ''1'') (CHR ''9''))))))"

definition format_regex_match :: "str \<Rightarrow> ((str \<times> str \<times> str) \<times> str) option" where
  "format_regex_match s =
     (case [((Y, m, d), r5).
              (Y, r1) \<leftarrow> re_Y s, (_, r2) \<leftarrow> re_lit (CHR ''-'') r1,
              (m, r3) \<leftarrow> re_m r2, (_, r4) \<leftarrow> re_lit (CHR ''-'') r3,
              (d, r5) \<leftarrow> re_d r4]
      of [] \<Rightarrow> None | found # _ \<Rightarrow> Some found)"

definition strptime_date :: "str \<Rightarrow> py_exception + date" where
  "strptime_date data_string =
     (case format_regex_match data_string of
        None \<Rightarrow> Inl ValueError
      | Some ((Y, m, d), unconverted) \<Rightarrow>
          if unconverted \<noteq> [] then Inl ValueError
          else date_new (py_int Y) (py_int m) (py_int d))"

subsection \<open>\<open>calendar.monthrange\<close>\<close>

definition mdays :: "int list" where
  "mdays = [0, 31, 28, 31, 30, 31, 30, 31, 31, 30, 31, 30, 31]"

definition isleap :: "int \<Rightarrow> bool" where
  "isleap y = (y mod 4 = 0 \<and> (y mod 100 \<noteq> 0 \<or> y mod 400 = 0))"

definition calendar_weekday :: "int \<Rightarrow> int \<Rightarrow> int \<Rightarrow> py_exception + int" where
  "calendar_weekday y m d =
     (let y = (if \<not> (MINYEAR \<le> y \<and> y \<le> MAXYEAR) then 2000 + y mod 400 else y)
      in case date_new y m d of Inl e \<Rightarrow> Inl e | Inr dt \<Rightarrow> Inr (weekday dt))"

definition monthrange :: "int \<Rightarrow> int \<Rightarrow> py_exception + (int \<times> int)" where
  "monthrange y m =
     (if \<not> (1 \<le> m \<and> m \<le> 12) then Inl ValueError
      else case calendar_weekday y m 1 of
             Inl e \<Rightarrow> Inl e
           | Inr day1 \<Rightarrow> Inr (day1, mdays ! nat m + bool_int (m = 2 \<and> isleap y)))"

section \<open>\<open>core_apps/events/business.py\<close>: \<open>DateRangeHelper\<close>\<close>

definition get_start_and_end_of_week :: "str \<Rightarrow> py_exception + (date \<times> date)" where
  "get_start_and_end_of_week date_str =
     (case strptime_date date_str of
        Inl e \<Rightarrow> Inl e
      | Inr given_date \<Rightarrow>
          (case date_sub given_date (weekday given_date) of
             Inl e \<Rightarrow> Inl e
           | Inr start_of_week \<Rightarrow>
               (case date_add start_of_week 6 of
                  Inl e \<Rightarrow> Inl e
                | Inr end_of_week \<Rightarrow> Inr (start_of_week, end_of_week))))"

definition get_first_and_last_day_of_month :: "str \<Rightarrow> py_exception + (date \<times> date)" where
  "get_first_and_last_day_of_month date_str =
     (case strptime_date date_str of
        Inl e \<Rightarrow> Inl e
      | Inr given_date \<Rightarrow>
          (case replace_day given_date 1 of
             Inl e \<Rightarrow> Inl e
           | Inr first_day \<Rightarrow>
               (case monthrange (year given_date) (month given_date) of
                  Inl e \<Rightarrow> Inl e
                | Inr (_, last_day) \<Rightarrow>
                    (case replace_day given_date last_day of
                       Inl e \<Rightarrow> Inl e
                     | Inr last_day \<Rightarrow> Inr (first_day, last_day)))))"

definition get_first_and_last_day_of_year :: "str \<Rightarrow> py_exception + (date \<times> date)" where
  "get_first_and_last_day_of_year date_str =
     (case strptime_date date_str of
        Inl e \<Rightarrow> Inl e
      | Inr given_date \<Rightarrow>
          (case date_new (year given_date) 1 1 of
             Inl e \<Rightarrow> Inl e
           | Inr first_day_of_year \<Rightarrow>
               (case date_new (year given_date) 12 31 of
                  Inl e \<Rightarrow> Inl e
                | Inr last_day_of_year \<Rightarrow> Inr (first_day_of_year, last_day_of_year))))"

section \<open>\<open>core_apps/events/models.py\<close>: the \<open>Event\<close> model and its table\<close>

text \<open>
  A user is known to the views as \<open>request.user\<close>: a row of the user table, identified
  by its primary key, or \<open>AnonymousUser\<close> when the request carries no valid token.
  \<open>Event.creator\<close> is a foreign key and holds the primary key of the creating user.
  The source's field \<open>id\<close> is \<open>id_event\<close> here.
\<close>

type_synonym uuid = nat

type_synonym time = "nat \<times> nat \<times> nat"

datatype user = AnonymousUser | User nat

record event =
  pkid :: nat
  id_event :: uuid
  creator :: nat
  name :: str
  description :: str
  date :: date
  start_event :: time
  end_event :: time

text \<open>
  A \<open>QuerySet\<close> is lazy: it is the list of the lookups given to \<open>filter\<close>, and reads
  the table only when it is evaluated.
\<close>

datatype lookup =
    Date_range date date
  | Date_exact date
  | Creator_exact user
  | Id_exact uuid

type_synonym queryset = "lookup list"

fun matches :: "event \<Rightarrow> lookup \<Rightarrow> bool" where
  "matches e (Date_range lo hi) = (date_le lo (date e) \<and> date_le (date e) hi)"
| "matches e (Date_exact d) = (date e = d)"
| "matches e (Creator_exact u) = (u = User (creator e))"
| "matches e (Id_exact i) = (id_event e = i)"

definition evaluate :: "event list \<Rightarrow> queryset \<Rightarrow> event list" where
  "evaluate rows qs = filter (\<lambda>e. list_all (matches e) qs) rows"

section \<open>Requests, responses and \<open>core_apps/events/serializers.py\<close>\<close>

datatype pyval =
    PNone
  | PStr str
  | PDate date
  | PTime time
  | PUuid uuid
  | PList "pyval list"
  | PDict "(string \<times> pyval) list"

datatype response = Response pyval nat

record request =
  user :: user
  query_params :: "string \<rightharpoonup> str"
  data :: "string \<rightharpoonup> pyval"

text \<open>
  \<open>EventSerializer\<close> represents the fields of \<open>Meta.fields\<close> in their order.  The
  field \<open>first_name\<close> is read-only with source \<open>creator.first_name\<close>; the user model of
  \<open>core_apps/users/models.py\<close> has the fields \<open>email\<close>, \<open>name\<close>, \<open>is_active\<close> and
  \<open>is_staff\<close> and no attribute \<open>first_name\<close>, so the framework skips the field.
\<close>

definition to_representation :: "event \<Rightarrow> pyval" where
  "to_representation e =
     PDict [(''id'', PUuid (id_event e)),
            (''name'', PStr (name e)),
            (''description'', PStr (description e)),
            (''date'', PStr (isoformat (date e))),
            (''start_event'', PTime (start_event e)),
            (''end_event'', PTime (end_event e))]"

text \<open>\<open>EventSerializer(events, many=True).data\<close>\<close>

definition serializer_data_many :: "event list \<Rightarrow> pyval" where
  "serializer_data_many es = PList (map to_representation es)"

text \<open>
  The writable fields are those of \<open>Meta.fields\<close> that are not read-only: \<open>id\<close> is not
  editable in the model and \<open>first_name\<close> is declared read-only.  How the framework
  validates one field's input is a parameter: a parser gives the validated value or an
  error message.
\<close>

datatype field_value =
    Name str
  | Description str
  | Date date
  | Start_event time
  | End_event time

record field_parsers =
  parse_name :: "pyval \<Rightarrow> str + str"
  parse_description :: "pyval \<Rightarrow> str + str"
  parse_date :: "pyval \<Rightarrow> str + date"
  parse_time :: "pyval \<Rightarrow> str + time"

definition run_field ::
  "bool \<Rightarrow> (string \<rightharpoonup> pyval) \<Rightarrow> string \<Rightarrow> (pyval \<Rightarrow> str + field_value)
    \<Rightarrow> (string \<times> pyval) + field_value list" where
  "run_field partial d key parse =
     (case d key of
        None \<Rightarrow> if partial then Inr [] else Inl (key, PList [PStr (str_of ''This field is required.'')])
      | Some raw \<Rightarrow>
          (case parse raw of
             Inl msg \<Rightarrow> Inl (key, PList [PStr msg])
           | Inr v \<Rightarrow> Inr [v]))"

definition writable_fields :: "field_parsers \<Rightarrow> (string \<times> (pyval \<Rightarrow> str + field_value)) list" where
  "writable_fields P =
     [(''name'', map_sum id Name \<circ> parse_name P),
      (''description'', map_sum id Description \<circ> parse_description P),
      (''date'', map_sum id Date \<circ> parse_date P),
      (''start_event'', map_sum id Start_event \<circ> parse_time P),
      (''end_event'', map_sum id End_event \<circ> parse_time P)]"

fun collect :: "((string \<times> pyval) + field_value list) list
    \<Rightarrow> (string \<times> pyval) list \<times> field_value list" where
  "collect [] = ([], [])"
| "collect (Inl err # rs) = (case collect rs of (errs, vs) \<Rightarrow> (err # errs, vs))"
| "collect (Inr v # rs) = (case collect rs of (errs, vs) \<Rightarrow> (errs, v @ vs))"

definition to_internal_value ::
  "field_parsers \<Rightarrow> bool \<Rightarrow> (string \<rightharpoonup> pyval) \<Rightarrow> (string \<times> pyval) list + field_value list" where
  "to_internal_value P partial d =
     (case collect (map (\<lambda>(key, parse). run_field partial d key parse) (writable_fields P)) of
        (errs, vs) \<Rightarrow> if errs = [] then Inr vs else Inl errs)"

fun setattr :: "event \<Rightarrow> field_value \<Rightarrow> event" where
  "setattr e (Name v) = e\<lparr>name := v\<rparr>"
| "setattr e (Description v) = e\<lparr>description := v\<rparr>"
| "setattr e (Date v) = e\<lparr>date := v\<rparr>"
| "setattr e (Start_event v) = e\<lparr>start_event := v\<rparr>"
| "setattr e (End_event v) = e\<lparr>end_event := v\<rparr>"

text \<open>
  \<open>serializer.save(creator=...)\<close> on a new event: \<open>Event.objects.create\<close> with the
  validated data and the creator.  The table gives the primary key, \<open>uuid.uuid4\<close> the
  identifier; a column left without a value violates its NOT NULL constraint.
\<close>

fun serializer_create :: "nat \<Rightarrow> uuid \<Rightarrow> nat \<Rightarrow> field_value list \<Rightarrow> py_exception + event" where
  "serializer_create new_pkid new_id creator_pk
      [Name n, Description ds, Date dt, Start_event s, End_event e] =
     Inr \<lparr>pkid = new_pkid, id_event = new_id, creator = creator_pk, name = n,
          description = ds, date = dt, start_event = s, end_event = e\<rparr>"
| "serializer_create new_pkid new_id creator_pk _ = Inl IntegrityError"

text \<open>
  The insert of the new row: \<open>pkid\<close> is the primary key and \<open>id\<close> is declared
  \<open>unique\<close>, so the database refuses a row whose \<open>pkid\<close> or \<open>id\<close> is taken.
\<close>

definition insert_row :: "event list \<Rightarrow> event \<Rightarrow> py_exception + event list" where
  "insert_row rows instance =
     (if pkid instance \<in> set (map pkid rows) \<or> id_event instance \<in> set (map id_event rows)
      then Inl IntegrityError
      else Inr (rows @ [instance]))"

text \<open>\<open>serializer.save()\<close> on an existing event: every validated field is assigned, then
  the row with the instance's primary key is written.\<close>

definition serializer_update :: "event \<Rightarrow> field_value list \<Rightarrow> event" where
  "serializer_update instance validated_data = foldl setattr instance validated_data"

definition save_row :: "event list \<Rightarrow> event \<Rightarrow> event list" where
  "save_row rows instance = map (\<lambda>e. if pkid e = pkid instance then instance else e) rows"

definition delete_row :: "event list \<Rightarrow> event \<Rightarrow> event list" where
  "delete_row rows instance = filter (\<lambda>e. pkid e \<noteq> pkid instance) rows"

section \<open>\<open>core_apps/events/permissions.py\<close>\<close>

definition is_authenticated :: "user \<Rightarrow> bool" where
  "is_authenticated u = (u \<noteq> AnonymousUser)"

text \<open>\<open>IsCreatorOrReadOnly\<close>\<close>

definition has_object_permission :: "request \<Rightarrow> event \<Rightarrow> bool" where
  "has_object_permission req obj = (User (creator obj) = user req)"

definition has_permission :: "request \<Rightarrow> bool" where
  "has_permission req = is_authenticated (user req)"

text \<open>\<open>permissions.IsAuthenticated\<close> of the framework\<close>

definition IsAuthenticated :: "request \<Rightarrow> bool" where
  "IsAuthenticated req = is_authenticated (user req)"

definition not_authenticated :: response where
  "not_authenticated =
     Response (PDict [(''detail'', PStr (str_of ''Authentication credentials were not provided.''))]) 401"

definition permission_denied :: response where
  "permission_denied =
     Response (PDict [(''detail'', PStr (str_of ''You do not have permission to perform this action.''))]) 403"

definition not_found :: response where
  "not_found = Response (PDict [(''detail'', PStr (str_of ''Not found.''))]) 404"


section \<open>\<open>core_apps/events/views.py\<close>\<close>

text \<open>
  A view takes the table of events and the request and gives either an uncaught
  exception or its response together with what it did to the database: the new table
  for the views that write, the list of the querysets it evaluated for the views that
  only read.  \<open>timezone.now().date()\<close> is the parameter \<open>current_date\<close>.
\<close>

subsection \<open>\<open>EventCreateView\<close>\<close>

definition perform_create ::
  "nat \<Rightarrow> uuid \<Rightarrow> request \<Rightarrow> field_value list \<Rightarrow> py_exception + event" where
  "perform_create new_pkid new_id req validated_data =
     (case user req of
        User pk \<Rightarrow> serializer_create new_pkid new_id pk validated_data
      | AnonymousUser \<Rightarrow> Inl ValueError)"

definition EventCreateView_post ::
  "field_parsers \<Rightarrow> nat \<Rightarrow> uuid \<Rightarrow> event list \<Rightarrow> request
    \<Rightarrow> py_exception + (response \<times> event list)" where
  "EventCreateView_post P new_pkid new_id rows req =
     (if \<not> IsAuthenticated req then Inr (not_authenticated, rows)
      else case to_internal_value P False (data req) of
             Inl errors \<Rightarrow> Inr (Response (PDict errors) 400, rows)
           | Inr validated_data \<Rightarrow>
               (case perform_create new_pkid new_id req validated_data of
                  Inl e \<Rightarrow> Inl e
                | Inr instance \<Rightarrow>
                    (case insert_row rows instance of
                       Inl e \<Rightarrow> Inl e
                     | Inr rows' \<Rightarrow> Inr (Response (to_representation instance) 201, rows'))))"

subsection \<open>\<open>EventRetrieveUpdateDeleteView\<close>\<close>

definition get_queryset :: "request \<Rightarrow> queryset" where
  "get_queryset req = [Creator_exact (user req)]"

text \<open>
  \<open>get_object\<close> of the generic view: the queryset of \<open>get_queryset\<close>, filtered by the
  lookup field \<open>id\<close>; no row is \<open>Http404\<close>; then the object-level permissions.
\<close>

definition get_object :: "event list \<Rightarrow> request \<Rightarrow> uuid \<Rightarrow> py_exception + (response + event)" where
  "get_object rows req ident =
     (case evaluate rows (get_queryset req @ [Id_exact ident]) of
        [] \<Rightarrow> Inr (Inl not_found)
      | [obj] \<Rightarrow> if has_object_permission req obj then Inr (Inr obj) else Inr (Inl permission_denied)
      | _ \<Rightarrow> Inl MultipleObjectsReturned)"

definition check_permissions :: "request \<Rightarrow> bool" where
  "check_permissions req = (IsAuthenticated req \<and> has_permission req)"

definition EventRetrieveUpdateDeleteView_get ::
  "event list \<Rightarrow> request \<Rightarrow> uuid \<Rightarrow> py_exception + (response \<times> event list)" where
  "EventRetrieveUpdateDeleteView_get rows req ident =
     (if \<not> check_permissions req then Inr (not_authenticated, rows)
      else case get_object rows req ident of
             Inl e \<Rightarrow> Inl e
           | Inr (Inl resp) \<Rightarrow> Inr (resp, rows)
           | Inr (Inr instance) \<Rightarrow> Inr (Response (to_representation instance) 200, rows))"

text \<open>\<open>PUT\<close> is \<open>update\<close> with \<open>partial = False\<close>, \<open>PATCH\<close> with \<open>partial = True\<close>.\<close>

definition EventRetrieveUpdateDeleteView_update ::
  "field_parsers \<Rightarrow> bool \<Rightarrow> event list \<Rightarrow> request \<Rightarrow> uuid
    \<Rightarrow> py_exception + (response \<times> event list)" where
  "EventRetrieveUpdateDeleteView_update P partial rows req ident =
     (if \<not> check_permissions req then Inr (not_authenticated, rows)
      else case get_object rows req ident of
             Inl e \<Rightarrow> Inl e
           | Inr (Inl resp) \<Rightarrow> Inr (resp, rows)
           | Inr (Inr instance) \<Rightarrow>
               (case to_internal_value P partial (data req) of
                  Inl errors \<Rightarrow> Inr (Response (PDict errors) 400, rows)
                | Inr validated_data \<Rightarrow>
                    let instance = serializer_update instance validated_data
                    in Inr (Response (to_representation instance) 200, save_row rows instance)))"

definition EventRetrieveUpdateDeleteView_put ::
  "field_parsers \<Rightarrow> event list \<Rightarrow> request \<Rightarrow> uuid \<Rightarrow> py_exception + (response \<times> event list)" where
  "EventRetrieveUpdateDeleteView_put P = EventRetrieveUpdateDeleteView_update P False"

definition EventRetrieveUpdateDeleteView_delete ::
  "event list \<Rightarrow> request \<Rightarrow> uuid \<Rightarrow> py_exception + (response \<times> event list)" where
  "EventRetrieveUpdateDeleteView_delete rows req ident =
     (if \<not> check_permissions req then Inr (not_authenticated, rows)
      else case get_object rows req ident of
             Inl e \<Rightarrow> Inl e
           | Inr (Inl resp) \<Rightarrow> Inr (resp, rows)
           | Inr (Inr instance) \<Rightarrow> Inr (Response PNone 204, delete_row rows instance))"

subsection \<open>\<open>BaseEventView\<close> and the week, month and year views\<close>

datatype period_view = WeekEventView | MonthEventView | YearEventView

fun date_range_func :: "period_view \<Rightarrow> str \<Rightarrow> py_exception + (date \<times> date)" where
  "date_range_func WeekEventView = get_start_and_end_of_week"
| "date_range_func MonthEventView = get_first_and_last_day_of_month"
| "date_range_func YearEventView = get_first_and_last_day_of_year"

fun period_name :: "period_view \<Rightarrow> string" where
  "period_name WeekEventView = ''week''"
| "period_name MonthEventView = ''month''"
| "period_name YearEventView = ''year''"

definition invalid_date_format :: response where
  "invalid_date_format = Response (PDict [(''error'', PStr (str_of ''Invalid date format.''))]) 400"

text \<open>
  \<open>if date_str:\<close> is Python's truth test: an absent parameter (\<open>None\<close>) and the empty
  string both take the \<open>else\<close> branch.
\<close>

fun truthy :: "str option \<Rightarrow> bool" where
  "truthy None = False"
| "truthy (Some s) = (s \<noteq> [])"

text \<open>
  \<open>get_event_data\<close> returns \<open>(None, error response)\<close> or \<open>(events, (start, end))\<close>; an
  exception other than \<open>ValueError\<close> in the \<open>try\<close> block, and any exception in the
  \<open>else\<close> branch, is not caught.
\<close>

definition get_event_data ::
  "date \<Rightarrow> str option \<Rightarrow> (str \<Rightarrow> py_exception + (date \<times> date))
    \<Rightarrow> py_exception + (response + (queryset \<times> (date \<times> date)))" where
  "get_event_data current_date date_str range_func =
     (if truthy date_str then
        (case range_func (the date_str) of
           Inr (start_date, end_date) \<Rightarrow>
             Inr (Inr ([Date_range start_date end_date], (start_date, end_date)))
         | Inl ValueError \<Rightarrow> Inr (Inl invalid_date_format)
         | Inl e \<Rightarrow> Inl e)
      else
        (case range_func (isoformat current_date) of
           Inr (start_date, end_date) \<Rightarrow>
             Inr (Inr ([Date_range start_date end_date], (start_date, end_date)))
         | Inl e \<Rightarrow> Inl e))"

text \<open>
  The loop of \<open>get\<close> over \<open>range(days_count)\<close>: each round adds the offset to the start
  date, filters the period's queryset by that day, and serializes the day's events,
  which evaluates the queryset.
\<close>

fun days_loop :: "event list \<Rightarrow> queryset \<Rightarrow> date \<Rightarrow> int list
    \<Rightarrow> py_exception + (pyval list \<times> queryset list)" where
  "days_loop rows events start_date [] = Inr ([], [])"
| "days_loop rows events start_date (n # ns) =
     (case date_add start_date n of
        Inl e \<Rightarrow> Inl e
      | Inr single_date \<Rightarrow>
          let day_events = events @ [Date_exact single_date];
              day_data = PDict [(''day'', PDate single_date),
                                (''events'', serializer_data_many (evaluate rows day_events))]
          in (case days_loop rows events start_date ns of
                Inl e \<Rightarrow> Inl e
              | Inr (days_data, queries) \<Rightarrow> Inr (day_data # days_data, day_events # queries)))"

definition BaseEventView_get ::
  "period_view \<Rightarrow> date \<Rightarrow> event list \<Rightarrow> request \<Rightarrow> py_exception + (response \<times> queryset list)" where
  "BaseEventView_get view current_date rows req =
     (let date_str = query_params req ''date'' in
      case get_event_data current_date date_str (date_range_func view) of
        Inl e \<Rightarrow> Inl e
      | Inr (Inl error_response) \<Rightarrow> Inr (error_response, [])
      | Inr (Inr (events, (start_date, end_date))) \<Rightarrow>
          let days_count = date_diff_days end_date start_date + 1 in
          (case days_loop rows events start_date [0..days_count - 1] of
             Inl e \<Rightarrow> Inl e
           | Inr (days_data, queries) \<Rightarrow>
               Inr (Response (PDict [(period_name view,
                                       PStr (isoformat start_date @ str_of '' - '' @ isoformat end_date)),
                                     (''days'', PList days_data)]) 200,
                    queries)))"

subsection \<open>\<open>DayEventView\<close>\<close>

definition DayEventView_get ::
  "date \<Rightarrow> event list \<Rightarrow> request \<Rightarrow> py_exception + (response \<times> queryset list)" where
  "DayEventView_get current_date rows req =
     (let day = query_params req ''date'' in
      if truthy day then
        (case strptime_date (the day) of
           Inl ValueError \<Rightarrow> Inr (invalid_date_format, [])
         | Inl e \<Rightarrow> Inl e
         | Inr date' \<Rightarrow>
             let events = [Date_exact date']
             in Inr (Response (PDict [(''day'', PStr (the day)),
                                      (''events'', serializer_data_many (evaluate rows events))]) 200,
                     [events]))
      else
        let day = current_date;
            events = [Date_exact day]
        in Inr (Response (PDict [(''day'', PDate day),
                                 (''events'', serializer_data_many (evaluate rows events))]) 200,
                [events]))"

subsection \<open>The endpoints: authentication and permissions, then the handler\<close>

definition period_endpoint ::
  "period_view \<Rightarrow> date \<Rightarrow> event list \<Rightarrow> request \<Rightarrow> py_exception + (response \<times> queryset list)" where
  "period_endpoint view current_date rows req =
     (if \<not> IsAuthenticated req then Inr (not_authenticated, [])
      else BaseEventView_get view current_date rows req)"

definition day_endpoint ::
  "date \<Rightarrow> event list \<Rightarrow> request \<Rightarrow> py_exception + (response \<times> queryset list)" where
  "day_endpoint current_date rows req =
     (if \<not> IsAuthenticated req then Inr (not_authenticated, [])
      else DayEventView_get current_date rows req)"


section \<open>Notions of the specification\<close>

text \<open>
  The constraints of the table of events: \<open>pkid\<close> is the primary key and \<open>id\<close> is
  unique.
\<close>

definition table_ok :: "event list \<Rightarrow> bool" where
  "table_ok rows = (distinct (map pkid rows) \<and> distinct (map id_event rows))"

text \<open>
  The length of a month of the Gregorian calendar, written from the calendar's rule
  and not from the library's tables: the month ranges are compared with it.
\<close>

definition gregorian_leap_year :: "int \<Rightarrow> bool" where
  "gregorian_leap_year y = (if y mod 400 = 0 then True else if y mod 100 = 0 then False else y mod 4 = 0)"

definition gregorian_month_length :: "int \<Rightarrow> int \<Rightarrow> int" where
  "gregorian_month_length y m =
     (if m = 2 then (if gregorian_leap_year y then 29 else 28)
      else if m = 4 \<or> m = 6 \<or> m = 9 \<or> m = 11 then 30
      else 31)"

text \<open>One date is strictly before another.\<close>

definition date_less :: "date \<Rightarrow> date \<Rightarrow> bool" where
  "date_less a b =
     (year a < year b \<or> (year a = year b \<and> (month a < month b \<or> (month a = month b \<and> day a < day b))))"

text \<open>
  The bucket of one day of a period report, as the specification describes it: the day
  and the serialized events of the table on that day, in the table's order.
\<close>

definition day_bucket :: "event list \<Rightarrow> date \<Rightarrow> pyval" where
  "day_bucket rows d =
     PDict [(''day'', PDate d),
            (''events'', PList (map to_representation (filter (\<lambda>e. date e = d) rows)))]"

text \<open>The calendar days from \<open>a\<close> to \<open>b\<close>, both included, in order.\<close>

definition period_days :: "date \<Rightarrow> date \<Rightarrow> date list" where
  "period_days a b = map (\<lambda>n. fromordinal (toordinal a + n)) [0..toordinal b - toordinal a]"

text \<open>
  The texts the fixed format \<open>%Y-%m-%d\<close> accepts, described without the matcher: four
  decimal digits of any script, a hyphen, a month, a hyphen and a day, which together
  name a date that exists.  The month is written \<open>1\<close> to \<open>9\<close>, \<open>01\<close> to \<open>09\<close> or
  \<open>10\<close> to \<open>12\<close>, in the digits of ASCII.  The day is written \<open>1\<close> to \<open>9\<close>, \<open>01\<close> to
  \<open>09\<close>, a space and \<open>1\<close> to \<open>9\<close>, \<open>30\<close> or \<open>31\<close>, in the digits of ASCII, or \<open>1\<close> or
  \<open>2\<close> followed by a decimal digit of any script.
\<close>

definition month_text :: "str \<Rightarrow> bool" where
  "month_text M =
     (case M of
        [b] \<Rightarrow> in_class (CHR ''1'') (CHR ''9'') b
      | [a, b] \<Rightarrow> (a = Ch (CHR ''0'') \<and> in_class (CHR ''1'') (CHR ''9'') b)
                 \<or> (a = Ch (CHR ''1'') \<and> in_class (CHR ''0'') (CHR ''2'') b)
      | _ \<Rightarrow> False)"

definition day_text :: "str \<Rightarrow> bool" where
  "day_text D =
     (case D of
        [b] \<Rightarrow> in_class (CHR ''1'') (CHR ''9'') b
      | [a, b] \<Rightarrow> (a = Ch (CHR ''0'') \<and> in_class (CHR ''1'') (CHR ''9'') b)
                 \<or> (in_class (CHR ''1'') (CHR ''2'') a \<and> isdigit b)
                 \<or> (a = Ch (CHR ''3'') \<and> in_class (CHR ''0'') (CHR ''1'') b)
                 \<or> (a = Ch (CHR '' '') \<and> in_class (CHR ''1'') (CHR ''9'') b)
      | _ \<Rightarrow> False)"

definition accepted_date_text :: "str \<Rightarrow> bool" where
  "accepted_date_text s =
     (\<exists>Y M D. s = Y @ str_of ''-'' @ M @ str_of ''-'' @ D
        \<and> length Y = 4 \<and> list_all isdigit Y \<and> month_text M \<and> day_text D
        \<and> check_date_fields (py_int Y) (py_int M) (py_int D))"

text \<open>Reading a response body: the value under a key, and the keys in order.\<close>

definition pydict_get :: "pyval \<Rightarrow> string \<Rightarrow> pyval option" where
  "pydict_get v k = (case v of PDict kvs \<Rightarrow> map_of kvs k | _ \<Rightarrow> None)"

definition pydict_keys :: "pyval \<Rightarrow> string list" where
  "pydict_keys v = (case v of PDict kvs \<Rightarrow> map fst kvs | _ \<Rightarrow> [])"

text \<open>
  The events that a report shows: those under the key \<open>events\<close> of a flat report or of
  one bucket, and those of all the buckets under the key \<open>days\<close> of a period report.
\<close>

definition bucket_events :: "pyval \<Rightarrow> pyval list" where
  "bucket_events b = (case pydict_get b ''events'' of Some (PList es) \<Rightarrow> es | _ \<Rightarrow> [])"

definition report_events :: "pyval \<Rightarrow> pyval list" where
  "report_events body =
     (case pydict_get body ''days'' of Some (PList bs) \<Rightarrow> concat (map bucket_events bs) | _ \<Rightarrow> [])"

text \<open>The keys of a request body that the serializer reads.\<close>

definition writable_keys :: "string list" where
  "writable_keys = [''name'', ''description'', ''date'', ''start_event'', ''end_event'']"

subsection \<open>Sample data\<close>

definition sample_event :: event where
  "sample_event =
     \<lparr>pkid = 1, id_event = 11, creator = 1, name = str_of ''standup'',
      description = str_of ''daily'',
      date = \<lparr>year = 2024, month = 8, day = 13\<rparr>, start_event = (9, 0, 0),
      end_event = (9, 15, 0)\<rparr>"

definition sample_request :: "user \<Rightarrow> str option \<Rightarrow> request" where
  "sample_request u date_param =
     \<lparr>user = u, query_params = (\<lambda>k. if k = ''date'' then date_param else None), data = Map.empty\<rparr>"

definition sample_today :: date where
  "sample_today = \<lparr>year = 2024, month = 8, day = 1\<rparr>"

definition sample_parsers :: field_parsers where
  "sample_parsers =
     \<lparr>parse_name = (\<lambda>v. case v of PStr s \<Rightarrow> if s = [] \<or> 50 < length s then Inl (str_of ''invalid'') else Inr s
                              | _ \<Rightarrow> Inl (str_of ''invalid'')),
      parse_description = (\<lambda>v. case v of PStr s \<Rightarrow> Inr s | _ \<Rightarrow> Inl (str_of ''invalid'')),
      parse_date = (\<lambda>v. case v of PDate d \<Rightarrow> Inr d | _ \<Rightarrow> Inl (str_of ''invalid'')),
      parse_time = (\<lambda>v. case v of PTime t \<Rightarrow> Inr t | _ \<Rightarrow> Inl (str_of ''invalid''))\<rparr>"

definition sample_body :: "string \<rightharpoonup> pyval" where
  "sample_body =
     [''name'' \<mapsto> PStr (str_of ''review''), ''description'' \<mapsto> PStr (str_of ''weekly''),
      ''date'' \<mapsto> PDate \<lparr>year = 2024, month = 8, day = 14\<rparr>,
      ''start_event'' \<mapsto> PTime (10, 0, 0), ''end_event'' \<mapsto> PTime (11, 0, 0),
      ''creator'' \<mapsto> PStr (str_of ''1'')]"

subsection \<open>Auxiliary predicates\<close>

text \<open>
  The facts about the tables of month lengths are finite, so they are stated as
  executable predicates over the days of a year and the months, and evaluated.
\<close>

definition md_ok :: "bool \<Rightarrow> int \<Rightarrow> bool" where
  "md_ok L n = (case month_day_of L n of (m, d) \<Rightarrow>
      1 \<le> m \<and> m \<le> 12 \<and> 1 \<le> d \<and> d \<le> DAYS_IN_MONTH ! nat m + bool_int (m = 2 \<and> L) \<and>
      DAYS_BEFORE_MONTH ! nat m + bool_int (m > 2 \<and> L) + d = n + 1)"

definition dbmL :: "bool \<Rightarrow> int \<Rightarrow> int" where
  "dbmL L m = DAYS_BEFORE_MONTH ! nat m + bool_int (m > 2 \<and> L)"

definition dimL :: "bool \<Rightarrow> int \<Rightarrow> int" where
  "dimL L m = (if m = 2 \<and> L then 29 else DAYS_IN_MONTH ! nat m)"

definition months_ok :: "bool \<Rightarrow> bool" where
  "months_ok L = list_all (\<lambda>m. 1 \<le> dimL L m \<and> 0 \<le> dbmL L m \<and> dbmL L m + dimL L m \<le> 365 + bool_int L \<and>
      list_all (\<lambda>m'. m' \<le> m \<or> dbmL L m + dimL L m \<le> dbmL L m') [1..12]) [1..12]"

section \<open>Properties of the calendar arithmetic\<close>

subsection \<open>Ordinals and dates are in bijection\<close>

lemma div_step:
  assumes "0 < k"
  shows "(y::int) div k = (y - 1) div k + (if y mod k = 0 then 1 else 0)"
proof -
  have y: "y = k * (y div k) + y mod k" by simp
  have r: "0 \<le> y mod k" "y mod k < k" using assms by simp_all
  show ?thesis
  proof (cases "y mod k = 0")
    case True
    with y have "y - 1 = k * (y div k - 1) + (k - 1)" by (simp add: algebra_simps)
    then have "(y - 1) div k = y div k - 1"
      using int_div_pos_eq[of "y - 1" k "y div k - 1" "k - 1"] assms by simp
    with True show ?thesis by simp
  next
    case False
    with y have "y - 1 = k * (y div k) + (y mod k - 1)" by (simp add: algebra_simps)
    then have "(y - 1) div k = y div k"
      using int_div_pos_eq[of "y - 1" k "y div k" "y mod k - 1"] r False by simp
    with False show ?thesis by simp
  qed
qed

lemma div_closed: "0 \<le> r \<Longrightarrow> r < k \<Longrightarrow> (k * q + r) div k = (q::int)"
  using int_div_pos_eq[of "k * q + r" k q r] by simp

lemma mod_400_100: "(y::int) mod 400 = 0 \<Longrightarrow> y mod 100 = 0"
proof -
  assume "y mod 400 = 0"
  then have "400 dvd y" by (simp add: dvd_eq_mod_eq_0)
  moreover have "(100::int) dvd 400" by simp
  ultimately have "100 dvd y" using dvd_trans by blast
  then show ?thesis by (simp add: dvd_eq_mod_eq_0)
qed

lemma mod_100_4: "(y::int) mod 100 = 0 \<Longrightarrow> y mod 4 = 0"
proof -
  assume "y mod 100 = 0"
  then have "100 dvd y" by (simp add: dvd_eq_mod_eq_0)
  moreover have "(4::int) dvd 100" by simp
  ultimately have "4 dvd y" using dvd_trans by blast
  then show ?thesis by (simp add: dvd_eq_mod_eq_0)
qed

lemma leap_indicator: "bool_int (is_leap y) =
      (if y mod 4 = 0 then 1 else 0) - (if y mod 100 = 0 then 1 else 0) + (if y mod 400 = 0 then 1 else 0)"
proof (cases "y mod 400 = 0")
  case True
  then have "y mod 100 = 0" by (rule mod_400_100)
  then have "y mod 4 = 0" by (rule mod_100_4)
  show ?thesis
    unfolding is_leap_def bool_int_def
    by (simp only: True \<open>y mod 100 = 0\<close> \<open>y mod 4 = 0\<close> simp_thms if_True if_False, simp?)
next
  case F400: False
  show ?thesis
  proof (cases "y mod 100 = 0")
    case True
    then have "y mod 4 = 0" by (rule mod_100_4)
    show ?thesis
      unfolding is_leap_def bool_int_def
      by (simp only: True F400 \<open>y mod 4 = 0\<close> simp_thms if_True if_False, simp?)
  next
    case F100: False
    show ?thesis
    proof (cases "y mod 4 = 0")
      case True
      show ?thesis
        unfolding is_leap_def bool_int_def
        by (simp only: True F400 F100 simp_thms if_True if_False, simp?)
    next
      case False
      show ?thesis
        unfolding is_leap_def bool_int_def
        by (simp only: False F400 F100 simp_thms if_True if_False, simp?)
    qed
  qed
qed

lemma dby_step: "days_before_year (y + 1) = days_before_year y + 365 + bool_int (is_leap y)"
proof -
  have e4: "y div 4 = (y - 1) div 4 + (if y mod 4 = 0 then 1 else 0)"
    by (rule div_step) simp
  have e100: "y div 100 = (y - 1) div 100 + (if y mod 100 = 0 then 1 else 0)"
    by (rule div_step) simp
  have e400: "y div 400 = (y - 1) div 400 + (if y mod 400 = 0 then 1 else 0)"
    by (rule div_step) simp
  have "days_before_year (y + 1) = y * 365 + y div 4 - y div 100 + y div 400"
    by (simp add: days_before_year_def)
  also have "\<dots> = (y - 1) * 365 + (y - 1) div 4 - (y - 1) div 100 + (y - 1) div 400 + 365
      + ((if y mod 4 = 0 then 1 else 0) - (if y mod 100 = 0 then 1 else 0) + (if y mod 400 = 0 then 1 else 0))"
    unfolding e4 e100 e400 by (simp only: algebra_simps)
  finally show ?thesis unfolding leap_indicator[symmetric] by (simp add: days_before_year_def)
qed

lemma dby_closed:
  assumes "0 \<le> a" "a \<le> 3" "0 \<le> b" "b \<le> 24" "0 \<le> c" "c \<le> 3"
  shows "days_before_year (400 * q + 100 * a + 4 * b + c + 1)
    = 146097 * q + 36524 * a + 1461 * b + 365 * c"
proof -
  let ?y = "400 * q + 100 * a + 4 * b + c"
  have "?y = 4 * (100 * q + 25 * a + b) + c" by simp
  then have d4: "?y div 4 = 100 * q + 25 * a + b"
    using div_closed[of c 4 "100 * q + 25 * a + b"] assms by simp
  have "?y = 100 * (4 * q + a) + (4 * b + c)" by simp
  then have d100: "?y div 100 = 4 * q + a"
    using div_closed[of "4 * b + c" 100 "4 * q + a"] assms by simp
  have "?y = 400 * q + (100 * a + 4 * b + c)" by simp
  then have d400: "?y div 400 = q"
    using div_closed[of "100 * a + 4 * b + c" 400 q] assms by simp
  show ?thesis
    using d4 d100 d400 by (simp add: days_before_year_def)
qed

lemma mod_closed: "0 \<le> r \<Longrightarrow> r < k \<Longrightarrow> (k * q + r) mod k = (r::int)"
  using int_mod_pos_eq[of "k * q + r" k q r] by simp

lemma is_leap_closed:
  assumes "0 \<le> a" "a \<le> 3" "0 \<le> b" "b \<le> 24" "0 \<le> c" "c \<le> 3"
  shows "is_leap (400 * q + 100 * a + 4 * b + c + 1) = (c = 3 \<and> (b \<noteq> 24 \<or> a = 3))"
proof -
  let ?y = "400 * q + 100 * a + 4 * b + c + 1"
  show ?thesis
  proof (cases "c = 3")
    case False
    have e: "?y = 4 * (100 * q + 25 * a + b) + (c + 1)" by simp
    have "(4 * (100 * q + 25 * a + b) + (c + 1)) mod 4 = c + 1"
      by (rule mod_closed) (use assms False in simp_all)
    then have "?y mod 4 = c + 1" by (simp only: e)
    then have "?y mod 4 \<noteq> 0" using assms by simp
    then show ?thesis using False by (simp only: is_leap_def simp_thms)
  next
    case c3: True
    have e: "?y = 4 * (100 * q + 25 * a + b + 1) + 0" using c3 by simp
    have "(4 * (100 * q + 25 * a + b + 1) + 0) mod 4 = (0::int)"
      by (rule mod_closed) simp_all
    then have m4: "?y mod 4 = 0" by (simp only: e)
    show ?thesis
    proof (cases "b = 24")
      case False
      have e: "?y = 100 * (4 * q + a) + (4 * b + 4)" using c3 by simp
      have "(100 * (4 * q + a) + (4 * b + 4)) mod 100 = 4 * b + 4"
        by (rule mod_closed) (use assms False in simp_all)
      then have "?y mod 100 = 4 * b + 4" by (simp only: e)
      then have "?y mod 100 \<noteq> 0" using assms by simp
      then show ?thesis using False c3 m4 by (simp only: is_leap_def simp_thms)
    next
      case b24: True
      have e: "?y = 100 * (4 * q + a + 1) + 0" using c3 b24 by simp
      have "(100 * (4 * q + a + 1) + 0) mod 100 = (0::int)"
        by (rule mod_closed) simp_all
      then have m100: "?y mod 100 = 0" by (simp only: e)
      show ?thesis
      proof (cases "a = 3")
        case True
        have e: "?y = 400 * (q + 1) + 0" using c3 b24 True by simp
        have "(400 * (q + 1) + 0) mod 400 = (0::int)"
          by (rule mod_closed) simp_all
        then have "?y mod 400 = 0" by (simp only: e)
        then show ?thesis using True c3 b24 m4 m100 by (simp only: is_leap_def simp_thms)
      next
        case False
        have e: "?y = 400 * q + (100 * a + 100)" using c3 b24 by simp
        have "(400 * q + (100 * a + 100)) mod 400 = 100 * a + 100"
          by (rule mod_closed) (use assms False in simp_all)
        then have "?y mod 400 = 100 * a + 100" by (simp only: e)
        then have "?y mod 400 \<noteq> 0" using assms by simp
        then show ?thesis using False c3 b24 m4 m100 by (simp only: is_leap_def simp_thms)
      qed
    qed
  qed
qed

lemma ord_digits:
  fixes n q r a r2 b r3 c r4 :: int
  assumes "n = 146097 * q + r" "0 \<le> r" "r < 146097"
    and "r = 36524 * a + r2" "0 \<le> r2" "r2 < 36524"
    and "r2 = 1461 * b + r3" "0 \<le> r3" "r3 < 1461"
    and "r3 = 365 * c + r4" "0 \<le> r4" "r4 < 365"
  shows "0 \<le> a" "a \<le> 4" "0 \<le> b" "b \<le> 24" "0 \<le> c" "c \<le> 4"
    and "a = 4 \<longrightarrow> b = 0 \<and> c = 0 \<and> r4 = 0"
    and "c = 4 \<longrightarrow> r4 = 0 \<and> b \<le> 23"
    and "n = 146097 * q + 36524 * a + 1461 * b + 365 * c + r4"
proof -
  show a: "0 \<le> a" "a \<le> 4" using assms by linarith+
  show b: "0 \<le> b" "b \<le> 24" using assms by linarith+
  show c: "0 \<le> c" "c \<le> 4" using assms by linarith+
  show "a = 4 \<longrightarrow> b = 0 \<and> c = 0 \<and> r4 = 0"
  proof
    assume a4: "a = 4"
    then have "r2 = 0" using assms by linarith
    then have "b = 0" "r3 = 0" using assms b by linarith+
    then have "c = 0" "r4 = 0" using assms c by linarith+
    with \<open>b = 0\<close> show "b = 0 \<and> c = 0 \<and> r4 = 0" by simp
  qed
  show "c = 4 \<longrightarrow> r4 = 0 \<and> b \<le> 23"
  proof
    assume c4: "c = 4"
    then have "r4 = 0" using assms by linarith
    moreover have "b \<le> 23" using c4 assms by linarith
    ultimately show "r4 = 0 \<and> b \<le> 23" by simp
  qed
  show "n = 146097 * q + 36524 * a + 1461 * b + 365 * c + r4"
    using assms by linarith
qed

lemma ord2ymd_unfold:
  fixes n :: int
  defines "q \<equiv> (n - 1) div 146097" and "r \<equiv> (n - 1) mod 146097"
  defines "a \<equiv> r div 36524" and "r2 \<equiv> r mod 36524"
  defines "b \<equiv> r2 div 1461" and "r3 \<equiv> r2 mod 1461"
  defines "c \<equiv> r3 div 365" and "r4 \<equiv> r3 mod 365"
  shows "ord2ymd n =
    (if c = 4 \<or> a = 4 then (q * 400 + 1 + (a * 100 + b * 4 + c) - 1, 12, 31)
     else (q * 400 + 1 + (a * 100 + b * 4 + c), month_day_of (c = 3 \<and> (b \<noteq> 24 \<or> a = 3)) r4))"
  unfolding ord2ymd_def Let_def DI400Y_def DI100Y_def DI4Y_def q_def r_def a_def r2_def b_def r3_def c_def r4_def
  by (rule refl)

lemma md_all: "list_all (\<lambda>n. md_ok True n \<and> md_ok False n) [0..364]"
  by code_simp

lemma md_ok_range: "0 \<le> n \<Longrightarrow> n \<le> 364 \<Longrightarrow> md_ok L n"
  using md_all by (cases L) (auto simp: list_all_iff)

lemma month_day_of_spec:
  assumes "0 \<le> n" "n \<le> 364" "month_day_of (is_leap y) n = (m, d)"
  shows "1 \<le> m \<and> m \<le> 12 \<and> 1 \<le> d \<and> d \<le> days_in_month y m \<and> days_before_month y m + d = n + 1"
proof -
  have "md_ok (is_leap y) n" using assms(1,2) by (rule md_ok_range)
  then have *: "1 \<le> m" "m \<le> 12" "1 \<le> d"
     "d \<le> DAYS_IN_MONTH ! nat m + bool_int (m = 2 \<and> is_leap y)"
     "DAYS_BEFORE_MONTH ! nat m + bool_int (m > 2 \<and> is_leap y) + d = n + 1"
    using assms(3) by (simp_all add: md_ok_def)
  have "DAYS_IN_MONTH ! nat m + bool_int (m = 2 \<and> is_leap y) = days_in_month y m"
    by (simp add: days_in_month_def bool_int_def DAYS_IN_MONTH_def)
  with * show ?thesis by (simp add: days_before_month_def)
qed

lemma dec31:
  assumes "is_leap y"
  shows "days_in_month y 12 = 31" "days_before_month y 12 + 31 = 366"
  using assms by (simp_all add: days_in_month_def days_before_month_def DAYS_IN_MONTH_def DAYS_BEFORE_MONTH_def bool_int_def)

lemma ord2ymd_spec:
  assumes "ord2ymd n = (y, m, d)"
  shows "1 \<le> m \<and> m \<le> 12 \<and> 1 \<le> d \<and> d \<le> days_in_month y m \<and> ymd2ord y m d = n"
proof -
  define q where "q = (n - 1) div 146097"
  define r where "r = (n - 1) mod 146097"
  define a where "a = r div 36524"
  define r2 where "r2 = r mod 36524"
  define b where "b = r2 div 1461"
  define r3 where "r3 = r2 mod 1461"
  define c where "c = r3 div 365"
  define r4 where "r4 = r3 mod 365"
  have u: "ord2ymd n =
    (if c = 4 \<or> a = 4 then (q * 400 + 1 + (a * 100 + b * 4 + c) - 1, 12, 31)
     else (q * 400 + 1 + (a * 100 + b * 4 + c), month_day_of (c = 3 \<and> (b \<noteq> 24 \<or> a = 3)) r4))"
    unfolding q_def r_def a_def r2_def b_def r3_def c_def r4_def by (rule ord2ymd_unfold)
  have h: "n - 1 = 146097 * q + r" "0 \<le> r" "r < 146097"
     "r = 36524 * a + r2" "0 \<le> r2" "r2 < 36524"
     "r2 = 1461 * b + r3" "0 \<le> r3" "r3 < 1461"
     "r3 = 365 * c + r4" "0 \<le> r4" "r4 < 365"
    by (simp_all add: q_def r_def a_def r2_def b_def r3_def c_def r4_def)
  note dg = ord_digits[OF h]
  show ?thesis
  proof (cases "a = 4")
    case a4: True
    then have z: "b = 0" "c = 0" "r4 = 0" using dg(7) by simp_all
    have y: "y = 400 * q + 100 * 3 + 4 * 24 + 3 + 1" "m = 12" "d = 31"
      using assms u a4 z by simp_all
    have lp: "is_leap y" unfolding y(1) by (subst is_leap_closed) simp_all
    have dby: "days_before_year y = 146097 * q + 36524 * 3 + 1461 * 24 + 365 * 3"
      unfolding y(1) by (rule dby_closed) simp_all
    have "n = 146097 * q + 146097" using dg(9) a4 z by simp
    then show ?thesis using dec31[OF lp] dby y(2,3) by (simp add: ymd2ord_def)
  next
    case an4: False
    then have a3: "a \<le> 3" using dg(2) by simp
    show ?thesis
    proof (cases "c = 4")
      case c4: True
      then have z: "r4 = 0" "b \<le> 23" using dg(8) by simp_all
      have y: "y = 400 * q + 100 * a + 4 * b + 3 + 1" "m = 12" "d = 31"
        using assms u c4 by simp_all
      have lp: "is_leap y" unfolding y(1) by (subst is_leap_closed) (use dg a3 z in simp_all)
      have dby: "days_before_year y = 146097 * q + 36524 * a + 1461 * b + 365 * 3"
        unfolding y(1) by (rule dby_closed) (use dg a3 z in simp_all)
      have "n = 146097 * q + 36524 * a + 1461 * b + 1461" using dg(9) c4 z by simp
      then show ?thesis using dec31[OF lp] dby y(2,3) by (simp add: ymd2ord_def)
    next
      case cn4: False
      then have c3: "c \<le> 3" using dg(6) by simp
      have y: "y = 400 * q + 100 * a + 4 * b + c + 1"
        and md: "month_day_of (c = 3 \<and> (b \<noteq> 24 \<or> a = 3)) r4 = (m, d)"
        using assms u an4 cn4 by simp_all
      have lp: "is_leap y = (c = 3 \<and> (b \<noteq> 24 \<or> a = 3))"
        unfolding y by (rule is_leap_closed) (use dg a3 c3 in simp_all)
      have dby: "days_before_year y = 146097 * q + 36524 * a + 1461 * b + 365 * c"
        unfolding y by (rule dby_closed) (use dg a3 c3 in simp_all)
      have "month_day_of (is_leap y) r4 = (m, d)" using md lp by simp
      from month_day_of_spec[OF _ _ this] h(11,12)
      have s: "1 \<le> m \<and> m \<le> 12 \<and> 1 \<le> d \<and> d \<le> days_in_month y m \<and> days_before_month y m + d = r4 + 1"
        by simp
      have "n = 146097 * q + 36524 * a + 1461 * b + 365 * c + r4 + 1" using dg(9) by simp
      then show ?thesis using s dby by (simp add: ymd2ord_def)
    qed
  qed
qed

lemma dby_mono_step: "y \<le> y' \<Longrightarrow> days_before_year y \<le> days_before_year y'"
proof (induction y' rule: int_ge_induct)
  case base
  show ?case by simp
next
  case (step i)
  have "days_before_year (i + 1) = days_before_year i + 365 + bool_int (is_leap i)"
    by (rule dby_step)
  then show ?case using step by (simp add: bool_int_def split: if_splits)
qed

lemma dby_next_le: "y < y' \<Longrightarrow> days_before_year y + 365 + bool_int (is_leap y) \<le> days_before_year y'"
  using dby_mono_step[of "y + 1" y'] dby_step[of y] by simp

lemma months_ok_all: "months_ok True \<and> months_ok False"
  by code_simp

lemma months_facts:
  assumes "1 \<le> m" "m \<le> 12"
  shows "1 \<le> days_in_month y m" "0 \<le> days_before_month y m"
    "days_before_month y m + days_in_month y m \<le> 365 + bool_int (is_leap y)"
    "m < m' \<Longrightarrow> m' \<le> 12 \<Longrightarrow> days_before_month y m + days_in_month y m \<le> days_before_month y m'"
proof -
  have ok: "months_ok (is_leap y)" using months_ok_all by (cases "is_leap y") simp_all
  have e: "dimL (is_leap y) = days_in_month y" "dbmL (is_leap y) = days_before_month y"
    by (auto simp: dimL_def dbmL_def days_in_month_def days_before_month_def)
  have m: "m \<in> set [1..12]" using assms by simp
  from ok m have *: "1 \<le> days_in_month y m \<and> 0 \<le> days_before_month y m \<and>
      days_before_month y m + days_in_month y m \<le> 365 + bool_int (is_leap y) \<and>
      list_all (\<lambda>m'. m' \<le> m \<or> days_before_month y m + days_in_month y m \<le> days_before_month y m') [1..12]"
    unfolding months_ok_def list_all_iff e by blast
  then show "1 \<le> days_in_month y m" "0 \<le> days_before_month y m"
    "days_before_month y m + days_in_month y m \<le> 365 + bool_int (is_leap y)" by simp_all
  show "days_before_month y m + days_in_month y m \<le> days_before_month y m'" if "m < m'" "m' \<le> 12"
  proof -
    have "m' \<in> set [1..12]" using that assms by simp
    with * that show ?thesis unfolding list_all_iff by fastforce
  qed
qed

lemma dby_1: "days_before_year 1 = 0"
  by (simp add: days_before_year_def)

lemma dby_10000: "days_before_year 10000 = 3652059"
  by (simp add: days_before_year_def)

lemma ymd2ord_lower:
  assumes "1 \<le> m" "m \<le> 12" "1 \<le> d"
  shows "days_before_year y < ymd2ord y m d"
  using months_facts(2)[OF assms(1,2), of y] assms(3) by (simp add: ymd2ord_def)

lemma ymd2ord_upper:
  assumes "1 \<le> m" "m \<le> 12" "d \<le> days_in_month y m"
  shows "ymd2ord y m d \<le> days_before_year (y + 1)"
  using months_facts(3)[OF assms(1,2), of y] assms(3) dby_step[of y] by (simp add: ymd2ord_def)

lemma toordinal_bounds:
  assumes "valid_date d"
  shows "1 \<le> toordinal d" "toordinal d \<le> MAXORDINAL"
proof -
  from assms have v: "1 \<le> year d" "year d \<le> 9999" "1 \<le> month d" "month d \<le> 12"
      "1 \<le> day d" "day d \<le> days_in_month (year d) (month d)"
    by (simp_all add: valid_date_def check_date_fields_def MINYEAR_def MAXYEAR_def)
  have "days_before_year 1 \<le> days_before_year (year d)" using v(1) by (rule dby_mono_step)
  then show "1 \<le> toordinal d"
    using ymd2ord_lower[OF v(3,4,5), of "year d"] by (simp add: toordinal_def dby_1)
  have "days_before_year (year d + 1) \<le> days_before_year 10000"
    by (rule dby_mono_step) (use v(2) in simp)
  then show "toordinal d \<le> MAXORDINAL"
    using ymd2ord_upper[OF v(3,4,6)] by (simp add: toordinal_def dby_10000 MAXORDINAL_def)
qed

lemma toordinal_strict_mono:
  assumes "valid_date a" "valid_date b" "date_less a b"
  shows "toordinal a < toordinal b"
proof -
  from assms(1) have va: "1 \<le> month a" "month a \<le> 12"
      "1 \<le> day a" "day a \<le> days_in_month (year a) (month a)"
    by (simp_all add: valid_date_def check_date_fields_def)
  from assms(2) have vb: "1 \<le> month b" "month b \<le> 12"
      "1 \<le> day b" "day b \<le> days_in_month (year b) (month b)"
    by (simp_all add: valid_date_def check_date_fields_def)
  consider (y) "year a < year b"
    | (m) "year a = year b" "month a < month b"
    | (d) "year a = year b" "month a = month b" "day a < day b"
    using assms(3) by (auto simp: date_less_def)
  then show ?thesis
  proof cases
    case y
    then have "days_before_year (year a + 1) \<le> days_before_year (year b)"
      by (intro dby_mono_step) simp
    then show ?thesis
      using ymd2ord_upper[OF va(1,2,4)] ymd2ord_lower[OF vb(1,2,3), of "year b"]
      by (simp add: toordinal_def)
  next
    case m
    have "days_before_month (year a) (month a) + days_in_month (year a) (month a)
        \<le> days_before_month (year a) (month b)"
      using months_facts(4)[OF va(1,2) m(2) vb(2)] .
    then show ?thesis using m(1) va(4) vb(3) by (simp add: toordinal_def ymd2ord_def)
  next
    case d
    then show ?thesis by (simp add: toordinal_def ymd2ord_def)
  qed
qed

lemma date_trichotomy: "date_less a b \<or> a = b \<or> date_less b a"
  by (cases a; cases b) (auto simp: date_less_def)

lemma toordinal_inj:
  assumes "valid_date a" "valid_date b" "toordinal a = toordinal b"
  shows "a = b"
  using date_trichotomy[of a b] toordinal_strict_mono[OF assms(1,2)] toordinal_strict_mono[OF assms(2,1)] assms(3)
  by auto

lemma date_le_less: "date_le a b = (date_less a b \<or> a = b)"
  by (cases a; cases b) (auto simp: date_less_def date_le_def)

lemma date_le_iff:
  assumes "valid_date a" "valid_date b"
  shows "date_le a b \<longleftrightarrow> toordinal a \<le> toordinal b"
  using date_trichotomy[of a b] toordinal_strict_mono[OF assms(1,2)] toordinal_strict_mono[OF assms(2,1)]
  by (auto simp: date_le_less)

lemma toordinal_fromordinal: "toordinal (fromordinal n) = n"
proof -
  obtain y m d where e: "ord2ymd n = (y, m, d)" by (cases "ord2ymd n") auto
  from ord2ymd_spec[OF e] show ?thesis by (simp add: toordinal_def fromordinal_def e)
qed

lemma fromordinal_valid:
  assumes "1 \<le> n" "n \<le> MAXORDINAL"
  shows "valid_date (fromordinal n)"
proof -
  obtain y m d where e: "ord2ymd n = (y, m, d)" by (cases "ord2ymd n") auto
  from ord2ymd_spec[OF e] have s: "1 \<le> m" "m \<le> 12" "1 \<le> d" "d \<le> days_in_month y m" "ymd2ord y m d = n"
    by simp_all
  have "1 \<le> y"
  proof (rule ccontr)
    assume "\<not> 1 \<le> y"
    then have "days_before_year (y + 1) \<le> days_before_year 1" by (intro dby_mono_step) simp
    then show False using ymd2ord_upper[OF s(1,2,4)] s(5) assms(1) by (simp add: dby_1)
  qed
  moreover have "y \<le> 9999"
  proof (rule ccontr)
    assume "\<not> y \<le> 9999"
    then have "days_before_year 10000 \<le> days_before_year y" by (intro dby_mono_step) simp
    then show False using ymd2ord_lower[OF s(1,2,3), of y] s(5) assms(2)
      by (simp add: dby_10000 MAXORDINAL_def)
  qed
  ultimately show ?thesis using s
    by (simp add: valid_date_def fromordinal_def e check_date_fields_def MINYEAR_def MAXYEAR_def)
qed

lemma fromordinal_toordinal:
  assumes "valid_date d"
  shows "fromordinal (toordinal d) = d"
proof -
  have "valid_date (fromordinal (toordinal d))"
    using toordinal_bounds[OF assms] by (rule fromordinal_valid)
  then show ?thesis using assms toordinal_fromordinal by (rule toordinal_inj)
qed

subsection \<open>Dates: construction, addition, weekdays and month lengths\<close>

lemmas date_defs = date_new_def check_date_fields_def MINYEAR_def MAXYEAR_def MAXORDINAL_def
  days_in_month_def DAYS_IN_MONTH_def days_before_month_def DAYS_BEFORE_MONTH_def
  days_before_year_def ymd2ord_def toordinal_def is_leap_def bool_int_def

lemmas ord_defs = fromordinal_def ord2ymd_def month_day_of_def DI400Y_def DI100Y_def DI4Y_def Let_def

lemma date_new_Inr:
  "date_new y m d = Inr D \<longleftrightarrow> check_date_fields y m d \<and> D = \<lparr>year = y, month = m, day = d\<rparr>"
  by (auto simp: date_new_def)

lemma date_new_valid: "date_new y m d = Inr D \<Longrightarrow> valid_date D"
  by (auto simp: date_new_Inr valid_date_def)

lemma weekday_range: "0 \<le> weekday d \<and> weekday d < 7"
  by (simp add: weekday_def)

lemma monday_ordinal:
  fixes t :: int
  assumes "1 \<le> t"
  shows "1 \<le> t - (t + 6) mod 7" "t - (t + 6) mod 7 \<le> t" "(t - (t + 6) mod 7 + 6) mod 7 = 0"
proof -
  have "t + 6 = t - 1 + 7" by simp
  then have "(t + 6) mod 7 = (t - 1 + 7) mod 7" by (rule arg_cong)
  also have "\<dots> = (t - 1) mod 7" by (rule mod_add_self2)
  finally have e: "(t + 6) mod 7 = (t - 1) mod 7" .
  have "(t - 1) mod 7 \<le> t - 1" using assms by (intro zmod_le_nonneg_dividend) simp
  then show "1 \<le> t - (t + 6) mod 7" unfolding e by simp
  show "t - (t + 6) mod 7 \<le> t" by simp
  have "t - (t + 6) mod 7 + 6 = (t + 6) - (t + 6) mod 7" by simp
  also have "\<dots> = 7 * ((t + 6) div 7)" by (simp add: minus_mod_eq_mult_div)
  finally show "(t - (t + 6) mod 7 + 6) mod 7 = 0" by simp
qed

lemma date_add_Inr:
  assumes "1 \<le> toordinal d + k" "toordinal d + k \<le> MAXORDINAL"
  shows "date_add d k = Inr (fromordinal (toordinal d + k))"
  using assms by (simp add: date_add_def Let_def)

lemma date_add_overflow:
  assumes "MAXORDINAL < toordinal d + k"
  shows "date_add d k = Inl OverflowError"
  using assms by (simp add: date_add_def Let_def)

lemma month_cases:
  fixes m :: int
  assumes "1 \<le> m" "m \<le> 12"
  shows "m = 1 \<or> m = 2 \<or> m = 3 \<or> m = 4 \<or> m = 5 \<or> m = 6 \<or> m = 7 \<or> m = 8 \<or> m = 9 \<or> m = 10 \<or> m = 11 \<or> m = 12"
  using assms by presburger

lemma gregorian_leap_year_eq: "gregorian_leap_year y = is_leap y"
  using mod_400_100[of y] mod_100_4[of y] by (auto simp: gregorian_leap_year_def is_leap_def)

lemma isleap_eq: "isleap y = is_leap y"
  by (simp add: isleap_def is_leap_def)

lemma days_in_month_length:
  assumes "1 \<le> m" "m \<le> 12"
  shows "days_in_month y m = gregorian_month_length y m"
  using month_cases[OF assms]
  by (auto simp: days_in_month_def gregorian_month_length_def gregorian_leap_year_eq DAYS_IN_MONTH_def)

lemma mdays_length:
  assumes "1 \<le> m" "m \<le> 12"
  shows "mdays ! nat m + bool_int (m = 2 \<and> isleap y) = days_in_month y m"
  using month_cases[OF assms]
  by (auto simp: days_in_month_def mdays_def isleap_eq DAYS_IN_MONTH_def bool_int_def)

lemma last_week_bound:
  fixes t :: int
  assumes "t \<le> 3652054"
  shows "t - (t + 6) mod 7 + 6 \<le> 3652054"
proof -
  have "t - (t + 6) mod 7 + 6 = (t + 6) - (t + 6) mod 7" by simp
  also have "\<dots> = 7 * ((t + 6) div 7)" by (simp add: minus_mod_eq_mult_div)
  also have "\<dots> \<le> 7 * ((3652054 + 6) div 7)"
    using assms zdiv_mono1[of "t + 6" "3652054 + 6" 7] by simp
  also have "\<dots> = 3652054" by simp
  finally show ?thesis .
qed

lemma toordinal_9999_12_26: "toordinal \<lparr>year = 9999, month = 12, day = 26\<rparr> = 3652054"
  by (simp add: date_defs)

lemma valid_9999_12_26: "valid_date \<lparr>year = 9999, month = 12, day = 26\<rparr>"
  by (simp add: valid_date_def date_defs)

lemma dbm_next:
  assumes "1 \<le> m" "m \<le> 11"
  shows "days_before_month y (m + 1) = days_before_month y m + days_in_month y m"
proof -
  have "m = 1 \<or> m = 2 \<or> m = 3 \<or> m = 4 \<or> m = 5 \<or> m = 6 \<or> m = 7 \<or> m = 8 \<or> m = 9 \<or> m = 10 \<or> m = 11"
    using assms by presburger
  then show ?thesis
    by (auto simp: days_before_month_def days_in_month_def DAYS_BEFORE_MONTH_def DAYS_IN_MONTH_def bool_int_def)
qed

lemma december: "days_before_month y 12 + days_in_month y 12 = 365 + bool_int (is_leap y)"
  by (simp add: days_before_month_def days_in_month_def DAYS_BEFORE_MONTH_def DAYS_IN_MONTH_def bool_int_def)

lemma january: "days_before_month y 1 = 0" "days_in_month y 1 = 31"
  by (simp_all add: days_before_month_def days_in_month_def DAYS_BEFORE_MONTH_def DAYS_IN_MONTH_def bool_int_def)

lemma date_add_Inr_iff:
  "date_add d k = Inr r \<longleftrightarrow>
     1 \<le> toordinal d + k \<and> toordinal d + k \<le> MAXORDINAL \<and> r = fromordinal (toordinal d + k)"
  by (auto simp: date_add_def Let_def)

lemma day_in_range:
  assumes va: "valid_date a" and vb: "valid_date b"
    and n: "0 \<le> n" "toordinal a + n \<le> toordinal b"
  shows "valid_date (fromordinal (toordinal a + n))"
    and "date_le a (fromordinal (toordinal a + n))"
    and "date_le (fromordinal (toordinal a + n)) b"
    and "date_add a n = Inr (fromordinal (toordinal a + n))"
proof -
  have r: "1 \<le> toordinal a + n" "toordinal a + n \<le> MAXORDINAL"
    using toordinal_bounds[OF va] toordinal_bounds[OF vb] n by simp_all
  then show v: "valid_date (fromordinal (toordinal a + n))" by (rule fromordinal_valid)
  show "date_le a (fromordinal (toordinal a + n))"
    using date_le_iff[OF va v] n by (simp add: toordinal_fromordinal)
  show "date_le (fromordinal (toordinal a + n)) b"
    using date_le_iff[OF v vb] n by (simp add: toordinal_fromordinal)
  show "date_add a n = Inr (fromordinal (toordinal a + n))" using r by (rule date_add_Inr)
qed

lemma date_less_iff:
  assumes "valid_date a" "valid_date b"
  shows "date_less a b \<longleftrightarrow> toordinal a < toordinal b"
  using date_trichotomy[of a b] toordinal_strict_mono[OF assms] toordinal_strict_mono[OF assms(2,1)]
  by auto

lemma date_less_irrefl: "\<not> date_less d d"
  by (simp add: date_less_def)

lemma date_add_error: "date_add d k = Inl e \<Longrightarrow> e = OverflowError"
  by (auto simp: date_add_def Let_def split: if_splits)

lemma days_in_month_le_31:
  assumes "1 \<le> m" "m \<le> 12"
  shows "days_in_month y m \<le> 31"
  using month_cases[OF assms] by (auto simp: days_in_month_def DAYS_IN_MONTH_def)

lemma valid_2024_08_15: "valid_date \<lparr>year = 2024, month = 8, day = 15\<rparr>"
  by (simp add: valid_date_def date_defs)

lemma valid_2024_02_15: "valid_date \<lparr>year = 2024, month = 2, day = 15\<rparr>"
  by (simp add: valid_date_def date_defs)

subsection \<open>The text of a date: formatting and parsing\<close>

lemmas re_defs = format_regex_match_def re_Y_def re_m_def re_d_def re_seq_def re_alt_def re_lit_def
  re_range_def re_digit_def isdigit_def in_class_def py_int_def digit_val_def str_of_def

lemma str_of_append: "str_of (a @ b) = str_of a @ str_of b"
  by (simp add: str_of_def)

lemma str_of_Nil [simp]: "str_of [] = []" "str_of s = [] \<longleftrightarrow> s = []"
  by (simp_all add: str_of_def)

lemma length_str_of [simp]: "length (str_of s) = length s"
  by (simp add: str_of_def)

lemma str_of_eq [simp]: "str_of a = str_of b \<longleftrightarrow> a = b"
  by (auto simp: str_of_def inj_on_def dest!: map_inj_on)

lemma strptime_valid:
  assumes "strptime_date s = Inr D"
  shows "valid_date D"
proof (cases "format_regex_match s")
  case None
  then show ?thesis using assms by (simp add: strptime_date_def)
next
  case (Some f)
  obtain Y m d r where f: "f = ((Y, m, d), r)" by (cases f) auto
  have "date_new (py_int Y) (py_int m) (py_int d) = Inr D"
    using assms Some f by (simp add: strptime_date_def split: if_splits)
  then show ?thesis by (rule date_new_valid)
qed

lemma strptime_parse_error:
  "strptime_date s = Inl e \<Longrightarrow> e = ValueError"
  by (auto simp: strptime_date_def date_new_def split: option.splits prod.splits if_splits)

lemma parse_2024_08_15: "strptime_date (str_of ''2024-08-15'') = Inr \<lparr>year = 2024, month = 8, day = 15\<rparr>"
  by (simp add: strptime_date_def re_defs date_defs)

lemma parse_2024_02_15: "strptime_date (str_of ''2024-02-15'') = Inr \<lparr>year = 2024, month = 2, day = 15\<rparr>"
  by (simp add: strptime_date_def re_defs date_defs)

lemma parse_2023_02_15: "strptime_date (str_of ''2023-02-15'') = Inr \<lparr>year = 2023, month = 2, day = 15\<rparr>"
  by (simp add: strptime_date_def re_defs date_defs)

lemma parse_9999_12_31: "strptime_date (str_of ''9999-12-31'') = Inr \<lparr>year = 9999, month = 12, day = 31\<rparr>"
  by (simp add: strptime_date_def re_defs date_defs)

lemma isoformat_2024_08_12: "isoformat \<lparr>year = 2024, month = 8, day = 12\<rparr> = str_of ''2024-08-12''"
  by (simp add: isoformat_def zero_pad_def digit_char_def)

lemma isoformat_2024_08_18: "isoformat \<lparr>year = 2024, month = 8, day = 18\<rparr> = str_of ''2024-08-18''"
  by (simp add: isoformat_def zero_pad_def digit_char_def)

lemma re_char_set: "(u, r) \<in> set (re_char p s) \<longleftrightarrow> (\<exists>c. s = c # r \<and> u = [c] \<and> p c)"
  by (cases s) auto

lemma re_seq_set:
  "(u, r) \<in> set (re_seq f g s) \<longleftrightarrow>
     (\<exists>u1 u2 r1. (u1, r1) \<in> set (f s) \<and> (u2, r) \<in> set (g r1) \<and> u = u1 @ u2)"
  by (force simp: re_seq_def)

lemma re_alt_set: "set (re_alt f g s) = set (f s) \<union> set (g s)"
  by (simp add: re_alt_def)

lemma re_Y_set:
  assumes "(Y, r) \<in> set (re_Y s)"
  shows "s = Y @ r \<and> length Y = 4 \<and> list_all isdigit Y"
  using assms unfolding re_Y_def re_digit_def re_seq_set re_char_set by auto

lemma re_m_set:
  assumes "(M, r) \<in> set (re_m s)"
  shows "s = M @ r \<and> month_text M"
  using assms unfolding re_m_def re_alt_set re_lit_def re_range_def Un_iff re_seq_set re_char_set month_text_def
  by auto

lemma re_d_set:
  assumes "(D, r) \<in> set (re_d s)"
  shows "s = D @ r \<and> day_text D"
  using assms unfolding re_d_def re_alt_set re_lit_def re_range_def re_digit_def Un_iff re_seq_set re_char_set day_text_def
  by auto

lemma re_lit_set: "(u, r) \<in> set (re_lit c s) \<longleftrightarrow> s = Ch c # r \<and> u = [Ch c]"
  unfolding re_lit_def re_char_set by auto

lemma format_regex_match_Some:
  assumes "format_regex_match s = Some ((Y, M, D), rest)"
  shows "s = Y @ str_of ''-'' @ M @ str_of ''-'' @ D @ rest \<and> length Y = 4 \<and> list_all isdigit Y
    \<and> month_text M \<and> day_text D"
proof -
  let ?L = "[((Y, m, d), r5).
              (Y, r1) \<leftarrow> re_Y s, (_, r2) \<leftarrow> re_lit (CHR ''-'') r1,
              (m, r3) \<leftarrow> re_m r2, (_, r4) \<leftarrow> re_lit (CHR ''-'') r3,
              (d, r5) \<leftarrow> re_d r4]"
  have "((Y, M, D), rest) \<in> set ?L"
    using assms unfolding format_regex_match_def by (cases ?L) auto
  then obtain r1 r2 r3 r4 u1 u2 where
    "(Y, r1) \<in> set (re_Y s)" "(u1, r2) \<in> set (re_lit (CHR ''-'') r1)"
    "(M, r3) \<in> set (re_m r2)" "(u2, r4) \<in> set (re_lit (CHR ''-'') r3)"
    "(D, rest) \<in> set (re_d r4)"
    by auto
  then show ?thesis
    using re_Y_set[of Y r1 s] re_m_set[of M r3 r2] re_d_set[of D rest r4]
    by (auto simp: re_lit_set str_of_def)
qed

lemma length4:
  assumes "length Y = 4"
  obtains a b c d where "Y = [a, b, c, d]"
  using assms by (cases Y; simp) (metis length_0_conv length_Suc_conv numeral_3_eq_3)

lemma re_Y_complete:
  assumes "isdigit a" "isdigit b" "isdigit c" "isdigit d"
  shows "re_Y (a # b # c # d # rest) = [([a, b, c, d], rest)]"
  using assms by (simp add: re_Y_def re_digit_def re_seq_def)

lemma month_text_cases:
  assumes "month_text M"
  obtains (one) e where "M = [e]" "in_class (CHR ''1'') (CHR ''9'') e"
    | (zero) e where "M = [Ch (CHR ''0''), e]" "in_class (CHR ''1'') (CHR ''9'') e"
    | (ten) e where "M = [Ch (CHR ''1''), e]" "in_class (CHR ''0'') (CHR ''2'') e"
  using assms by (auto simp: month_text_def split: list.splits)

lemma day_text_cases:
  assumes "day_text D"
  obtains (one) g where "D = [g]" "in_class (CHR ''1'') (CHR ''9'') g"
    | (zero) g where "D = [Ch (CHR ''0''), g]" "in_class (CHR ''1'') (CHR ''9'') g"
    | (teens) f g where "D = [f, g]" "in_class (CHR ''1'') (CHR ''2'') f" "isdigit g"
    | (thirty) g where "D = [Ch (CHR ''3''), g]" "in_class (CHR ''0'') (CHR ''1'') g"
    | (space) g where "D = [Ch (CHR '' ''), g]" "in_class (CHR ''1'') (CHR ''9'') g"
  using assms by (auto simp: day_text_def split: list.splits)

text \<open>The part of the match after the year and its hyphen.\<close>

lemma tail_match:
  assumes "month_text M" "day_text D"
  shows "\<exists>others. [((m, d), r5). (m, r3) \<leftarrow> re_m (M @ str_of ''-'' @ D), (_, r4) \<leftarrow> re_lit (CHR ''-'') r3,
              (d, r5) \<leftarrow> re_d r4] = ((M, D), []) # others"
proof -
  have d: "\<exists>others. re_d D = (D, []) # others"
    using assms(2)
    by (cases rule: day_text_cases)
       (auto simp: re_d_def re_alt_def re_seq_def re_lit_def re_range_def re_digit_def isdigit_def in_class_def
          split: uchar.splits)
  then obtain od where od: "re_d D = (D, []) # od" by blast
  show ?thesis
    using assms(1)
    by (cases rule: month_text_cases)
       (auto simp: od re_m_def re_alt_def re_seq_def re_lit_def re_range_def in_class_def str_of_def
          split: uchar.splits)
qed

lemma format_regex_match_complete:
  assumes "length Y = 4" "list_all isdigit Y" "month_text M" "day_text D"
  shows "format_regex_match (Y @ str_of ''-'' @ M @ str_of ''-'' @ D) = Some ((Y, M, D), [])"
proof -
  obtain a b c d where Y: "Y = [a, b, c, d]" using assms(1) by (rule length4)
  have dg: "isdigit a" "isdigit b" "isdigit c" "isdigit d" using assms(2) by (simp_all add: Y)
  obtain others where t: "[((m, d), r5). (m, r3) \<leftarrow> re_m (M @ str_of ''-'' @ D), (_, r4) \<leftarrow> re_lit (CHR ''-'') r3,
              (d, r5) \<leftarrow> re_d r4] = ((M, D), []) # others"
    using tail_match[OF assms(3,4)] by blast
  have "[((Y, m, d), r5).
              (Y, r1) \<leftarrow> re_Y (Y @ str_of ''-'' @ M @ str_of ''-'' @ D), (_, r2) \<leftarrow> re_lit (CHR ''-'') r1,
              (m, r3) \<leftarrow> re_m r2, (_, r4) \<leftarrow> re_lit (CHR ''-'') r3,
              (d, r5) \<leftarrow> re_d r4]
     = map (\<lambda>((m, d), r5). ((Y, m, d), r5))
         [((m, d), r5). (m, r3) \<leftarrow> re_m (M @ str_of ''-'' @ D), (_, r4) \<leftarrow> re_lit (CHR ''-'') r3,
              (d, r5) \<leftarrow> re_d r4]"
    by (simp add: Y re_Y_complete[OF dg] re_lit_def str_of_def map_concat comp_def case_prod_unfold)
  then show ?thesis
    unfolding format_regex_match_def t by simp
qed

lemma strptime_accepts_iff: "(\<exists>D. strptime_date s = Inr D) \<longleftrightarrow> accepted_date_text s"
proof
  assume "\<exists>D. strptime_date s = Inr D"
  then obtain D where p: "strptime_date s = Inr D" by blast
  then obtain f where f: "format_regex_match s = Some f"
    by (cases "format_regex_match s") (simp_all add: strptime_date_def)
  obtain Y M D' rest where ff: "f = ((Y, M, D'), rest)" by (cases f) auto
  from p f ff have r: "rest = []" and c: "check_date_fields (py_int Y) (py_int M) (py_int D')"
    by (auto simp: strptime_date_def date_new_def split: if_splits)
  from format_regex_match_Some[OF f[unfolded ff]] r c
  show "accepted_date_text s" unfolding accepted_date_text_def by auto
next
  assume "accepted_date_text s"
  then obtain Y M D where s: "s = Y @ str_of ''-'' @ M @ str_of ''-'' @ D"
    and h: "length Y = 4" "list_all isdigit Y" "month_text M" "day_text D"
    and c: "check_date_fields (py_int Y) (py_int M) (py_int D)"
    unfolding accepted_date_text_def by blast
  have "format_regex_match s = Some ((Y, M, D), [])"
    unfolding s using h by (rule format_regex_match_complete)
  then show "\<exists>D. strptime_date s = Inr D"
    using c by (simp add: strptime_date_def date_new_def)
qed

lemma strptime_rejects_iff: "strptime_date s = Inl ValueError \<longleftrightarrow> \<not> accepted_date_text s"
proof -
  have "strptime_date s = Inl ValueError \<longleftrightarrow> \<not> (\<exists>D. strptime_date s = Inr D)"
    using strptime_parse_error[of s] by (cases "strptime_date s") auto
  then show ?thesis by (simp add: strptime_accepts_iff)
qed

lemma parse_not_a_date: "strptime_date (str_of ''not-a-date'') = Inl ValueError"
  by (simp add: strptime_date_def re_defs)

lemma isoformat_sample_today: "isoformat sample_today = str_of ''2024-08-01''"
  by (simp add: sample_today_def isoformat_def zero_pad_def digit_char_def)

lemma parse_2024_08_01: "strptime_date (str_of ''2024-08-01'') = Inr \<lparr>year = 2024, month = 8, day = 1\<rparr>"
  by (simp add: strptime_date_def re_defs date_defs)

lemma parse_2024_8_13: "strptime_date (str_of ''2024-8-13'') = Inr \<lparr>year = 2024, month = 8, day = 13\<rparr>"
  by (simp add: strptime_date_def re_defs date_defs)

lemma isoformat_2024_08_13: "isoformat \<lparr>year = 2024, month = 8, day = 13\<rparr> = str_of ''2024-08-13''"
  by (simp add: isoformat_def zero_pad_def digit_char_def)

lemma parse_2024_8_5: "strptime_date (str_of ''2024-8-5'') = Inr \<lparr>year = 2024, month = 8, day = 5\<rparr>"
  by (simp add: strptime_date_def re_defs date_defs)

lemma isoformat_2024_08_05: "isoformat \<lparr>year = 2024, month = 8, day = 5\<rparr> = str_of ''2024-08-05''"
  by (simp add: isoformat_def zero_pad_def digit_char_def)

lemma digit_cases:
  fixes k :: nat
  assumes "k < 10"
  shows "k = 0 \<or> k = 1 \<or> k = 2 \<or> k = 3 \<or> k = 4 \<or> k = 5 \<or> k = 6 \<or> k = 7 \<or> k = 8 \<or> k = 9"
  using assms by presburger

lemma of_char_digit_char:
  assumes "k < 10"
  shows "(of_char (digit_char k) :: nat) = 48 + k"
  using digit_cases[OF assms] by (auto simp: digit_char_def)

lemma digit_char_eq:
  assumes "k < 10"
  shows "digit_char k = CHR ''0'' \<longleftrightarrow> k = 0"
   and "digit_char k = CHR ''1'' \<longleftrightarrow> k = 1"
   and "digit_char k = CHR ''3'' \<longleftrightarrow> k = 3"
   and "digit_char k \<noteq> CHR '' ''"
  using digit_cases[OF assms] by (auto simp: digit_char_def)

lemma digit_char_props:
  assumes "k < 10"
  shows "isdigit (Ch (digit_char k))" and "digit_val (Ch (digit_char k)) = int k"
    and "in_class (CHR ''1'') (CHR ''9'') (Ch (digit_char k)) \<longleftrightarrow> 1 \<le> k"
    and "in_class (CHR ''0'') (CHR ''2'') (Ch (digit_char k)) \<longleftrightarrow> k \<le> 2"
    and "in_class (CHR ''1'') (CHR ''2'') (Ch (digit_char k)) \<longleftrightarrow> 1 \<le> k \<and> k \<le> 2"
    and "in_class (CHR ''0'') (CHR ''1'') (Ch (digit_char k)) \<longleftrightarrow> k \<le> 1"
  using assms by (auto simp: isdigit_def digit_val_def in_class_def of_char_digit_char)

lemma digits_of_1: "n < 10 \<Longrightarrow> digits_of n = [digit_char n]"
  by (subst digits_of.simps) simp

lemma digits_of_2:
  assumes "10 \<le> n" "n < 100"
  shows "digits_of n = [digit_char (n div 10), digit_char (n mod 10)]"
proof -
  have "n div 10 < 10" using assms by simp
  then show ?thesis using assms by (subst digits_of.simps) (simp add: digits_of_1)
qed

lemma digits_of_3:
  assumes "100 \<le> n" "n < 1000"
  shows "digits_of n = [digit_char (n div 100), digit_char (n div 10 mod 10), digit_char (n mod 10)]"
proof -
  have "10 \<le> n div 10" "n div 10 < 100" using assms by simp_all
  from digits_of_2[OF this] show ?thesis
    using assms by (subst digits_of.simps) (simp add: div_mult2_eq[symmetric])
qed

lemma digits_of_4:
  assumes "1000 \<le> n" "n < 10000"
  shows "digits_of n = [digit_char (n div 1000), digit_char (n div 100 mod 10),
                        digit_char (n div 10 mod 10), digit_char (n mod 10)]"
proof -
  have "100 \<le> n div 10" "n div 10 < 1000" using assms by simp_all
  from digits_of_3[OF this] show ?thesis
    using assms by (subst digits_of.simps) (simp add: div_mult2_eq[symmetric])
qed

lemma digit_char_0: "digit_char 0 = CHR ''0''"
  by (simp add: digit_char_def)

lemma zero_pad_2:
  assumes "0 \<le> k" "k < 100"
  shows "zero_pad 2 k = [digit_char (nat k div 10), digit_char (nat k mod 10)]"
proof (cases "nat k < 10")
  case True
  then show ?thesis by (simp add: zero_pad_def digits_of_1 digit_char_0)
next
  case False
  then have "10 \<le> nat k" "nat k < 100" using assms by simp_all
  from digits_of_2[OF this] show ?thesis by (simp add: zero_pad_def)
qed

lemma replicate_small:
  "replicate 3 c = [c, c, c]" "replicate 2 c = [c, c]" "replicate (Suc 0) c = [c]"
  by (simp_all add: numeral_3_eq_3 numeral_2_eq_2)

lemma zero_pad_4:
  assumes "0 \<le> k" "k < 10000"
  shows "zero_pad 4 k = [digit_char (nat k div 1000), digit_char (nat k div 100 mod 10),
                         digit_char (nat k div 10 mod 10), digit_char (nat k mod 10)]"
proof -
  consider "nat k < 10" | "10 \<le> nat k" "nat k < 100" | "100 \<le> nat k" "nat k < 1000"
    | "1000 \<le> nat k" "nat k < 10000"
    using assms by linarith
  then show ?thesis
  proof cases
    case 1
    then show ?thesis by (simp add: zero_pad_def digits_of_1 digit_char_0 replicate_small)
  next
    case 2
    from digits_of_2[OF this] 2 show ?thesis
      by (simp add: zero_pad_def digit_char_0 replicate_small)
  next
    case 3
    from digits_of_3[OF this] 3 show ?thesis
      by (simp add: zero_pad_def digit_char_0 replicate_small)
  next
    case 4
    from digits_of_4[OF this] show ?thesis by (simp add: zero_pad_def)
  qed
qed

lemma py_int_2:
  assumes "a < 10" "b < 10"
  shows "py_int (str_of [digit_char a, digit_char b]) = int (10 * a + b)"
  using assms by (simp add: py_int_def str_of_def digit_char_eq(4) digit_char_props(2))

lemma py_int_4:
  assumes "a < 10" "b < 10" "c < 10" "d < 10"
  shows "py_int (str_of [digit_char a, digit_char b, digit_char c, digit_char d])
    = int (1000 * a + 100 * b + 10 * c + d)"
  using assms by (simp add: py_int_def str_of_def digit_char_eq(4) digit_char_props(2))

lemma two_digits:
  fixes n :: nat
  assumes "n < 100"
  shows "n div 10 < 10" "n mod 10 < 10" "10 * (n div 10) + n mod 10 = n"
  using assms by simp_all

lemma four_digits:
  fixes n :: nat
  assumes "n < 10000"
  shows "n div 1000 < 10" "n div 100 mod 10 < 10" "n div 10 mod 10 < 10" "n mod 10 < 10"
    and "1000 * (n div 1000) + 100 * (n div 100 mod 10) + 10 * (n div 10 mod 10) + n mod 10 = n"
proof -
  show "n div 1000 < 10" using assms by simp
  show "n div 100 mod 10 < 10" "n div 10 mod 10 < 10" "n mod 10 < 10" by simp_all
  have 1: "10 * (n div 10) + n mod 10 = n" by simp
  have 2: "10 * (n div 100) + n div 10 mod 10 = n div 10"
    using mult_div_mod_eq[of 10 "n div 10"] by (simp add: div_mult2_eq[symmetric])
  have 3: "10 * (n div 1000) + n div 100 mod 10 = n div 100"
    using mult_div_mod_eq[of 10 "n div 100"] by (simp add: div_mult2_eq[symmetric])
  show "1000 * (n div 1000) + 100 * (n div 100 mod 10) + 10 * (n div 10 mod 10) + n mod 10 = n"
    using 1 2 3 by linarith
qed

lemma zero_pad_year:
  assumes "1 \<le> y" "y \<le> 9999"
  shows "length (str_of (zero_pad 4 y)) = 4" "list_all isdigit (str_of (zero_pad 4 y))"
    "py_int (str_of (zero_pad 4 y)) = y"
proof -
  have n: "nat y < 10000" using assms by simp
  note z = zero_pad_4[of y]
  note f = four_digits[OF n]
  show "length (str_of (zero_pad 4 y)) = 4" using z assms by (simp add: str_of_def)
  show "list_all isdigit (str_of (zero_pad 4 y))"
    using z assms f(1-4) by (simp add: str_of_def digit_char_props(1))
  have "py_int (str_of (zero_pad 4 y)) = int (nat y)"
    using z assms py_int_4[OF f(1-4)] f(5) by simp
  then show "py_int (str_of (zero_pad 4 y)) = y" using assms by simp
qed

lemma zero_pad_month:
  assumes "1 \<le> m" "m \<le> 12"
  shows "month_text (str_of (zero_pad 2 m))" "py_int (str_of (zero_pad 2 m)) = m"
proof -
  have n: "nat m < 100" using assms by simp
  note z = zero_pad_2[of m]
  note f = two_digits[OF n]
  define a b where "a = nat m div 10" and "b = nat m mod 10"
  have ab: "a < 10" "b < 10" "10 * a + b = nat m" using f by (simp_all add: a_def b_def)
  have r: "1 \<le> 10 * a + b" "10 * a + b \<le> 12" using assms ab(3) by simp_all
  have "(a = 0 \<and> 1 \<le> b) \<or> (a = 1 \<and> b \<le> 2)" using r ab(2) by linarith
  then show "month_text (str_of (zero_pad 2 m))"
    using z assms ab(1,2)
    by (auto simp: month_text_def str_of_def a_def[symmetric] b_def[symmetric] digit_char_eq digit_char_props)
  have "py_int (str_of (zero_pad 2 m)) = int (nat m)"
    using z assms py_int_2[OF f(1,2)] f(3) by simp
  then show "py_int (str_of (zero_pad 2 m)) = m" using assms by simp
qed

lemma zero_pad_day:
  assumes "1 \<le> d" "d \<le> 31"
  shows "day_text (str_of (zero_pad 2 d))" "py_int (str_of (zero_pad 2 d)) = d"
proof -
  have n: "nat d < 100" using assms by simp
  note z = zero_pad_2[of d]
  note f = two_digits[OF n]
  define a b where "a = nat d div 10" and "b = nat d mod 10"
  have ab: "a < 10" "b < 10" "10 * a + b = nat d" using f by (simp_all add: a_def b_def)
  have r: "1 \<le> 10 * a + b" "10 * a + b \<le> 31" using assms ab(3) by simp_all
  have "(a = 0 \<and> 1 \<le> b) \<or> (1 \<le> a \<and> a \<le> 2) \<or> (a = 3 \<and> b \<le> 1)" using r ab(2) by linarith
  then show "day_text (str_of (zero_pad 2 d))"
    using z assms ab(1,2)
    by (auto simp: day_text_def str_of_def a_def[symmetric] b_def[symmetric] digit_char_eq digit_char_props)
  have "py_int (str_of (zero_pad 2 d)) = int (nat d)"
    using z assms py_int_2[OF f(1,2)] f(3) by simp
  then show "py_int (str_of (zero_pad 2 d)) = d" using assms by simp
qed

text \<open>Parsing the text of a date gives the date back.\<close>

lemma strptime_isoformat:
  assumes "valid_date D"
  shows "strptime_date (isoformat D) = Inr D"
proof -
  from assms have v: "1 \<le> year D" "year D \<le> 9999" "1 \<le> month D" "month D \<le> 12"
      "1 \<le> day D" "day D \<le> days_in_month (year D) (month D)"
    and c: "check_date_fields (year D) (month D) (day D)"
    by (simp_all add: valid_date_def check_date_fields_def MINYEAR_def MAXYEAR_def)
  have d31: "day D \<le> 31" using days_in_month_le_31[OF v(3,4), of "year D"] v(6) by simp
  note Y = zero_pad_year[OF v(1,2)]
  note M = zero_pad_month[OF v(3,4)]
  note Dd = zero_pad_day[OF v(5) d31]
  have "format_regex_match (str_of (zero_pad 4 (year D)) @ str_of ''-'' @ str_of (zero_pad 2 (month D))
          @ str_of ''-'' @ str_of (zero_pad 2 (day D)))
      = Some ((str_of (zero_pad 4 (year D)), str_of (zero_pad 2 (month D)), str_of (zero_pad 2 (day D))), [])"
    using Y(1,2) M(1) Dd(1) by (rule format_regex_match_complete)
  moreover have "isoformat D = str_of (zero_pad 4 (year D)) @ str_of ''-'' @ str_of (zero_pad 2 (month D))
          @ str_of ''-'' @ str_of (zero_pad 2 (day D))"
    by (simp only: isoformat_def str_of_append)
  ultimately show ?thesis
    using c by (simp add: strptime_date_def Y(3) M(2) Dd(2) date_new_def)
qed

lemma isoformat_2024_08_15: "isoformat \<lparr>year = 2024, month = 8, day = 15\<rparr> = str_of ''2024-08-15''"
  by (simp add: isoformat_def zero_pad_def digit_char_def)

lemma isoformat_2024_02_15: "isoformat \<lparr>year = 2024, month = 2, day = 15\<rparr> = str_of ''2024-02-15''"
  by (simp add: isoformat_def zero_pad_def digit_char_def)

lemma isoformat_2024_08_31: "isoformat \<lparr>year = 2024, month = 8, day = 31\<rparr> = str_of ''2024-08-31''"
  by (simp add: isoformat_def zero_pad_def digit_char_def)

lemma isoformat_2024_01_01: "isoformat \<lparr>year = 2024, month = 1, day = 1\<rparr> = str_of ''2024-01-01''"
  by (simp add: isoformat_def zero_pad_def digit_char_def)

lemma isoformat_2024_12_31: "isoformat \<lparr>year = 2024, month = 12, day = 31\<rparr> = str_of ''2024-12-31''"
  by (simp add: isoformat_def zero_pad_def digit_char_def)

lemma isoformat_2024_08_01: "isoformat \<lparr>year = 2024, month = 8, day = 1\<rparr> = str_of ''2024-08-01''"
  by (simp add: isoformat_def zero_pad_def digit_char_def)

lemma parse_2024_08_13: "strptime_date (str_of ''2024-08-13'') = Inr \<lparr>year = 2024, month = 8, day = 13\<rparr>"
  by (simp add: strptime_date_def re_defs date_defs)

text \<open>
  Decimal digits outside ASCII are digits of the year and of the second place of a day
  from 10 to 29, and of no other place; a space may stand before a day of one digit.
\<close>

lemma parse_arabic_indic:
  "strptime_date ([Nd 0 D2, Nd 0 D0, Nd 0 D2, Nd 0 D4] @ str_of ''-08-15'')
     = Inr \<lparr>year = 2024, month = 8, day = 15\<rparr>"
  by (simp add: strptime_date_def re_defs date_defs)

lemma parse_space_day:
  "strptime_date (str_of ''2024-08- 5'') = Inr \<lparr>year = 2024, month = 8, day = 5\<rparr>"
  by (simp add: strptime_date_def re_defs date_defs)

lemma parse_unicode_day:
  "strptime_date (str_of ''2024-08-1'' @ [Nd 0 D5]) = Inr \<lparr>year = 2024, month = 8, day = 15\<rparr>"
  by (simp add: strptime_date_def re_defs date_defs)

lemma parse_unicode_month:
  "strptime_date (str_of ''2024-0'' @ [Nd 0 D8] @ str_of ''-15'') = Inl ValueError"
  by (simp add: strptime_date_def re_defs date_defs)

section \<open>Properties of \<open>DateRangeHelper\<close>\<close>

text \<open>The week of a parsed date, when its Sunday is representable.\<close>

lemma week_result:
  assumes p: "strptime_date s = Inr D" and b: "toordinal D - weekday D + 6 \<le> MAXORDINAL"
  shows "get_start_and_end_of_week s =
    Inr (fromordinal (toordinal D - weekday D), fromordinal (toordinal D - weekday D + 6))"
proof -
  have v: "valid_date D" using p by (rule strptime_valid)
  note tb = toordinal_bounds[OF v]
  note mo = monday_ordinal[OF tb(1)]
  have w: "weekday D = (toordinal D + 6) mod 7" by (simp add: weekday_def)
  have s1: "date_sub D (weekday D) = Inr (fromordinal (toordinal D - weekday D))"
    unfolding date_sub_def using date_add_Inr[of D "- weekday D"] mo tb w by simp
  have s2: "date_add (fromordinal (toordinal D - weekday D)) 6
      = Inr (fromordinal (toordinal D - weekday D + 6))"
    using date_add_Inr[of "fromordinal (toordinal D - weekday D)" 6] mo b w
    by (simp add: toordinal_fromordinal)
  show ?thesis by (simp add: get_start_and_end_of_week_def p s1 s2)
qed

lemma week_overflow:
  assumes p: "strptime_date s = Inr D" and b: "MAXORDINAL < toordinal D - weekday D + 6"
  shows "get_start_and_end_of_week s = Inl OverflowError"
proof -
  have v: "valid_date D" using p by (rule strptime_valid)
  note tb = toordinal_bounds[OF v]
  note mo = monday_ordinal[OF tb(1)]
  have w: "weekday D = (toordinal D + 6) mod 7" by (simp add: weekday_def)
  have s1: "date_sub D (weekday D) = Inr (fromordinal (toordinal D - weekday D))"
    unfolding date_sub_def using date_add_Inr[of D "- weekday D"] mo tb w by simp
  have s2: "date_add (fromordinal (toordinal D - weekday D)) 6 = Inl OverflowError"
    using date_add_overflow[of "fromordinal (toordinal D - weekday D)" 6] b
    by (simp add: toordinal_fromordinal)
  show ?thesis by (simp add: get_start_and_end_of_week_def p s1 s2)
qed

lemma monthrange_days:
  assumes "valid_date D"
  shows "\<exists>day1. monthrange (year D) (month D) = Inr (day1, days_in_month (year D) (month D))"
proof -
  from assms have v: "1 \<le> year D" "year D \<le> 9999" "1 \<le> month D" "month D \<le> 12"
    by (simp_all add: valid_date_def check_date_fields_def MINYEAR_def MAXYEAR_def)
  have "check_date_fields (year D) (month D) 1"
    using v months_facts(1)[OF v(3,4), of "year D"]
    by (simp add: check_date_fields_def MINYEAR_def MAXYEAR_def)
  then have "\<exists>day1. calendar_weekday (year D) (month D) 1 = Inr day1"
    using v by (simp add: calendar_weekday_def date_new_def MINYEAR_def MAXYEAR_def)
  then show ?thesis
    using v mdays_length[OF v(3,4), of "year D"] by (auto simp: monthrange_def)
qed

lemma month_result:
  assumes p: "strptime_date s = Inr D"
  shows "get_first_and_last_day_of_month s =
    Inr (D\<lparr>day := 1\<rparr>, D\<lparr>day := days_in_month (year D) (month D)\<rparr>)"
    and "valid_date (D\<lparr>day := 1\<rparr>)" and "valid_date (D\<lparr>day := days_in_month (year D) (month D)\<rparr>)"
proof -
  have v: "valid_date D" using p by (rule strptime_valid)
  then have f: "1 \<le> year D" "year D \<le> 9999" "1 \<le> month D" "month D \<le> 12"
    by (simp_all add: valid_date_def check_date_fields_def MINYEAR_def MAXYEAR_def)
  note m1 = months_facts(1)[OF f(3,4), of "year D"]
  obtain day1 where mr: "monthrange (year D) (month D) = Inr (day1, days_in_month (year D) (month D))"
    using monthrange_days[OF v] by blast
  have r1: "replace_day D 1 = Inr (D\<lparr>day := 1\<rparr>)"
    using f m1 by (cases D) (simp add: replace_day_def date_new_def check_date_fields_def MINYEAR_def MAXYEAR_def)
  have r2: "replace_day D (days_in_month (year D) (month D))
      = Inr (D\<lparr>day := days_in_month (year D) (month D)\<rparr>)"
    using f m1 by (cases D) (simp add: replace_day_def date_new_def check_date_fields_def MINYEAR_def MAXYEAR_def)
  show "get_first_and_last_day_of_month s =
    Inr (D\<lparr>day := 1\<rparr>, D\<lparr>day := days_in_month (year D) (month D)\<rparr>)"
    by (simp add: get_first_and_last_day_of_month_def p r1 r2 mr)
  show "valid_date (D\<lparr>day := 1\<rparr>)" "valid_date (D\<lparr>day := days_in_month (year D) (month D)\<rparr>)"
    using f m1 by (simp_all add: valid_date_def check_date_fields_def MINYEAR_def MAXYEAR_def)
qed

lemma year_result:
  assumes p: "strptime_date s = Inr D"
  shows "get_first_and_last_day_of_year s =
    Inr (\<lparr>year = year D, month = 1, day = 1\<rparr>, \<lparr>year = year D, month = 12, day = 31\<rparr>)"
    and "valid_date \<lparr>year = year D, month = 1, day = 1\<rparr>"
    and "valid_date \<lparr>year = year D, month = 12, day = 31\<rparr>"
proof -
  have v: "valid_date D" using p by (rule strptime_valid)
  then have f: "1 \<le> year D" "year D \<le> 9999"
    by (simp_all add: valid_date_def check_date_fields_def MINYEAR_def MAXYEAR_def)
  have c: "check_date_fields (year D) 1 1" "check_date_fields (year D) 12 31"
    using f by (simp_all add: check_date_fields_def MINYEAR_def MAXYEAR_def days_in_month_def DAYS_IN_MONTH_def)
  then show "get_first_and_last_day_of_year s =
    Inr (\<lparr>year = year D, month = 1, day = 1\<rparr>, \<lparr>year = year D, month = 12, day = 31\<rparr>)"
    by (simp add: get_first_and_last_day_of_year_def p date_new_def)
  show "valid_date \<lparr>year = year D, month = 1, day = 1\<rparr>"
    and "valid_date \<lparr>year = year D, month = 12, day = 31\<rparr>"
    using c by (simp_all add: valid_date_def)
qed

lemma week_properties:
  assumes p: "strptime_date date_str = Inr D"
    and l: "date_le D \<lparr>year = 9999, month = 12, day = 26\<rparr>"
  defines "start_of_week \<equiv> fromordinal (toordinal D - weekday D)"
  defines "end_of_week \<equiv> fromordinal (toordinal D - weekday D + 6)"
  shows "get_start_and_end_of_week date_str = Inr (start_of_week, end_of_week)"
    and "valid_date start_of_week" and "valid_date end_of_week"
    and "weekday start_of_week = 0"
    and "date_sub D (weekday D) = Inr start_of_week"
    and "date_le start_of_week D"
    and "date_add start_of_week 6 = Inr end_of_week"
    and "date_diff_days end_of_week start_of_week = 6"
    and "date_le D end_of_week"
proof -
  have v: "valid_date D" using p by (rule strptime_valid)
  note tb = toordinal_bounds[OF v]
  note mo = monday_ordinal[OF tb(1)]
  have w: "weekday D = (toordinal D + 6) mod 7" by (simp add: weekday_def)
  have "toordinal D \<le> 3652054"
    using l date_le_iff[OF v valid_9999_12_26] toordinal_9999_12_26 by simp
  then have b: "toordinal D - weekday D + 6 \<le> 3652054" unfolding w by (rule last_week_bound)
  then have b': "toordinal D - weekday D + 6 \<le> MAXORDINAL" by (simp add: MAXORDINAL_def)
  show "get_start_and_end_of_week date_str = Inr (start_of_week, end_of_week)"
    unfolding start_of_week_def end_of_week_def using p b' by (rule week_result)
  show vs: "valid_date start_of_week"
    unfolding start_of_week_def using mo tb w by (intro fromordinal_valid) simp_all
  show ve: "valid_date end_of_week"
    unfolding end_of_week_def using mo b' w by (intro fromordinal_valid) simp_all
  show "weekday start_of_week = 0"
    using mo(3) by (simp add: start_of_week_def weekday_def toordinal_fromordinal)
  show "date_sub D (weekday D) = Inr start_of_week"
    unfolding date_sub_def start_of_week_def
    using date_add_Inr[of D "- weekday D"] mo tb w by simp
  show "date_le start_of_week D"
    using date_le_iff[OF vs v] mo(2) w by (simp add: start_of_week_def toordinal_fromordinal)
  show "date_add start_of_week 6 = Inr end_of_week"
    unfolding start_of_week_def end_of_week_def
    using date_add_Inr[of "fromordinal (toordinal D - weekday D)" 6] mo b' w
    by (simp add: toordinal_fromordinal)
  show "date_diff_days end_of_week start_of_week = 6"
    by (simp add: date_diff_days_def start_of_week_def end_of_week_def toordinal_fromordinal)
  show "date_le D end_of_week"
    using date_le_iff[OF v ve] weekday_range[of D]
    by (simp add: end_of_week_def toordinal_fromordinal)
qed

lemma day_after_last_day:
  assumes v: "valid_date D" and n: "\<not> (year D = 9999 \<and> month D = 12)"
  shows "date_add (D\<lparr>day := days_in_month (year D) (month D)\<rparr>) 1 =
    Inr (if month D = 12 then \<lparr>year = year D + 1, month = 1, day = 1\<rparr>
         else \<lparr>year = year D, month = month D + 1, day = 1\<rparr>)"
proof -
  let ?last = "D\<lparr>day := days_in_month (year D) (month D)\<rparr>"
  let ?next = "if month D = 12 then \<lparr>year = year D + 1, month = 1, day = 1\<rparr>
         else \<lparr>year = year D, month = month D + 1, day = 1\<rparr>"
  from v have f: "1 \<le> year D" "year D \<le> 9999" "1 \<le> month D" "month D \<le> 12"
    by (simp_all add: valid_date_def check_date_fields_def MINYEAR_def MAXYEAR_def)
  have vn: "valid_date ?next"
  proof (cases "month D = 12")
    case True
    then show ?thesis using f n
      by (simp add: valid_date_def check_date_fields_def MINYEAR_def MAXYEAR_def january)
  next
    case False
    then have "1 \<le> month D + 1" "month D + 1 \<le> 12" using f by simp_all
    from months_facts(1)[OF this, of "year D"] False f show ?thesis
      by (simp add: valid_date_def check_date_fields_def MINYEAR_def MAXYEAR_def)
  qed
  have e: "toordinal ?last + 1 = toordinal ?next"
  proof (cases "month D = 12")
    case True
    then show ?thesis
      using december[of "year D"] dby_step[of "year D"]
      by (simp add: toordinal_def ymd2ord_def january)
  next
    case False
    then have "1 \<le> month D" "month D \<le> 11" using f by simp_all
    from dbm_next[OF this, of "year D"] False show ?thesis
      by (simp add: toordinal_def ymd2ord_def)
  qed
  have "1 \<le> toordinal ?last + 1" "toordinal ?last + 1 \<le> MAXORDINAL"
    unfolding e using toordinal_bounds[OF vn] by simp_all
  then have "date_add ?last 1 = Inr (fromordinal (toordinal ?last + 1))"
    by (rule date_add_Inr)
  also have "fromordinal (toordinal ?last + 1) = ?next"
    unfolding e using vn by (rule fromordinal_toordinal)
  finally show ?thesis .
qed

lemma parsed_month_bounds:
  assumes "strptime_date s = Inr D"
  shows "1 \<le> month D" "month D \<le> 12" "1 \<le> day D" "day D \<le> days_in_month (year D) (month D)"
  using strptime_valid[OF assms] by (simp_all add: valid_date_def check_date_fields_def)

lemma week_range_props:
  assumes "get_start_and_end_of_week s = Inr (a, b)"
  shows "valid_date a \<and> valid_date b \<and> toordinal a \<le> toordinal b"
proof -
  from assms obtain D where p: "strptime_date s = Inr D"
    by (cases "strptime_date s") (simp_all add: get_start_and_end_of_week_def)
  from assms p obtain a' where a': "date_sub D (weekday D) = Inr a'"
    by (cases "date_sub D (weekday D)") (simp_all add: get_start_and_end_of_week_def)
  from assms p a' obtain b' where b': "date_add a' 6 = Inr b'"
    by (cases "date_add a' 6") (simp_all add: get_start_and_end_of_week_def)
  from assms p a' b' have e: "a = a'" "b = b'"
    by (simp_all add: get_start_and_end_of_week_def)
  from a' have ra: "1 \<le> toordinal D - weekday D" "toordinal D - weekday D \<le> MAXORDINAL"
      "a = fromordinal (toordinal D - weekday D)"
    unfolding e date_sub_def date_add_Inr_iff by simp_all
  from b' have rb: "1 \<le> toordinal a + 6" "toordinal a + 6 \<le> MAXORDINAL"
      "b = fromordinal (toordinal a + 6)"
    unfolding e date_add_Inr_iff by simp_all
  have "valid_date a" unfolding ra(3) using ra(1,2) by (rule fromordinal_valid)
  moreover have "valid_date b" unfolding rb(3) using rb(1,2) by (rule fromordinal_valid)
  moreover have "toordinal a \<le> toordinal b" unfolding rb(3) by (simp add: toordinal_fromordinal)
  ultimately show ?thesis by simp
qed

lemma month_range_props:
  assumes "get_first_and_last_day_of_month s = Inr (a, b)"
  shows "valid_date a \<and> valid_date b \<and> toordinal a \<le> toordinal b"
proof -
  from assms obtain D where p: "strptime_date s = Inr D"
    by (cases "strptime_date s") (simp_all add: get_first_and_last_day_of_month_def)
  note r = month_result[OF p]
  note pb = parsed_month_bounds[OF p]
  from assms r(1) have e: "a = D\<lparr>day := 1\<rparr>" "b = D\<lparr>day := days_in_month (year D) (month D)\<rparr>"
    by simp_all
  have v: "valid_date a" "valid_date b" unfolding e by (rule r(2), rule r(3))
  have "date_le a b" unfolding e using months_facts(1)[OF pb(1,2), of "year D"] by (simp add: date_le_def)
  then show ?thesis using v date_le_iff[OF v] by simp
qed

lemma year_range_props:
  assumes "get_first_and_last_day_of_year s = Inr (a, b)"
  shows "valid_date a \<and> valid_date b \<and> toordinal a \<le> toordinal b"
proof -
  from assms obtain D where p: "strptime_date s = Inr D"
    by (cases "strptime_date s") (simp_all add: get_first_and_last_day_of_year_def)
  note r = year_result[OF p]
  from assms r(1) have e: "a = \<lparr>year = year D, month = 1, day = 1\<rparr>"
      "b = \<lparr>year = year D, month = 12, day = 31\<rparr>"
    by simp_all
  have v: "valid_date a" "valid_date b" unfolding e by (rule r(2), rule r(3))
  have "date_le a b" unfolding e by (simp add: date_le_def)
  then show ?thesis using v date_le_iff[OF v] by simp
qed

lemma date_range_func_props:
  assumes "date_range_func view s = Inr (a, b)"
  shows "valid_date a \<and> valid_date b \<and> toordinal a \<le> toordinal b"
  using assms week_range_props month_range_props year_range_props
  by (cases view) simp_all

lemma week_2024_08_15:
  "get_start_and_end_of_week (str_of ''2024-08-15'') =
      Inr (\<lparr>year = 2024, month = 8, day = 12\<rparr>, \<lparr>year = 2024, month = 8, day = 18\<rparr>)"
proof -
  have b: "toordinal \<lparr>year = 2024, month = 8, day = 15\<rparr>
      - weekday \<lparr>year = 2024, month = 8, day = 15\<rparr> + 6 \<le> MAXORDINAL"
    by (simp add: weekday_def date_defs)
  show ?thesis
    unfolding week_result[OF parse_2024_08_15 b]
    by (simp add: weekday_def date_defs ord_defs)
qed

lemma date_range_func_ValueError:
  "date_range_func view s = Inl ValueError \<longleftrightarrow> strptime_date s = Inl ValueError"
proof (cases "strptime_date s")
  case (Inl e)
  then have "e = ValueError" by (rule strptime_parse_error)
  with Inl show ?thesis
    by (cases view)
       (simp_all add: get_start_and_end_of_week_def get_first_and_last_day_of_month_def
          get_first_and_last_day_of_year_def)
next
  case (Inr D)
  have "date_range_func view s \<noteq> Inl ValueError"
  proof (cases view)
    case WeekEventView
    show ?thesis
      using date_add_error[of D "- weekday D"] date_add_error[of _ 6]
      by (auto simp: WeekEventView get_start_and_end_of_week_def Inr date_sub_def split: sum.splits)
  next
    case MonthEventView
    then show ?thesis using month_result(1)[OF Inr] by simp
  next
    case YearEventView
    then show ?thesis using year_result(1)[OF Inr] by simp
  qed
  then show ?thesis using Inr by simp
qed

section \<open>Properties of the period reports\<close>

lemma get_event_data_Inr:
  assumes "get_event_data current_date date_str range_func = Inr (Inr (events, (a, b)))"
  shows "events = [Date_range a b]
    \<and> range_func (if truthy date_str then the date_str else isoformat current_date) = Inr (a, b)"
proof (cases "truthy date_str")
  case True
  then show ?thesis using assms
    by (auto simp: get_event_data_def split: sum.splits prod.splits py_exception.splits)
next
  case False
  then show ?thesis using assms
    by (auto simp: get_event_data_def split: sum.splits prod.splits)
qed

lemma evaluate_day:
  assumes "date_le a d" "date_le d b"
  shows "evaluate rows ([Date_range a b] @ [Date_exact d]) = filter (\<lambda>e. date e = d) rows"
  unfolding evaluate_def using assms by (intro filter_cong) auto

lemma days_loop_buckets:
  assumes va: "valid_date a" and vb: "valid_date b"
    and ns: "\<forall>n\<in>set ns. 0 \<le> n \<and> toordinal a + n \<le> toordinal b"
  shows "days_loop rows [Date_range a b] a ns =
    Inr (map (\<lambda>n. day_bucket rows (fromordinal (toordinal a + n))) ns,
         map (\<lambda>n. [Date_range a b, Date_exact (fromordinal (toordinal a + n))]) ns)"
  using ns
proof (induction ns)
  case Nil
  show ?case by simp
next
  case (Cons n ns)
  then have n: "0 \<le> n" "toordinal a + n \<le> toordinal b" by simp_all
  note d = day_in_range[OF va vb n]
  have ev: "evaluate rows ([Date_range a b] @ [Date_exact (fromordinal (toordinal a + n))])
      = filter (\<lambda>e. date e = fromordinal (toordinal a + n)) rows"
    using d(2,3) by (rule evaluate_day)
  have ih: "days_loop rows [Date_range a b] a ns =
    Inr (map (\<lambda>n. day_bucket rows (fromordinal (toordinal a + n))) ns,
         map (\<lambda>n. [Date_range a b, Date_exact (fromordinal (toordinal a + n))]) ns)"
    using Cons by simp
  show ?case
    using ev by (simp add: d(4) ih Let_def day_bucket_def serializer_data_many_def)
qed

lemma period_days_props:
  assumes va: "valid_date a" and vb: "valid_date b" and le: "toordinal a \<le> toordinal b"
  shows "int (length (period_days a b)) = date_diff_days b a + 1"
    and "period_days a b \<noteq> []"
    and "hd (period_days a b) = a"
    and "last (period_days a b) = b"
    and "\<And>i. i < length (period_days a b) \<Longrightarrow>
           valid_date (period_days a b ! i) \<and> date_diff_days (period_days a b ! i) a = int i"
    and "\<And>i. Suc i < length (period_days a b) \<Longrightarrow>
           date_add (period_days a b ! i) 1 = Inr (period_days a b ! Suc i)"
proof -
  let ?k = "toordinal b - toordinal a"
  have len: "length (period_days a b) = nat (?k + 1)"
    by (simp add: period_days_def)
  show "int (length (period_days a b)) = date_diff_days b a + 1"
    using le by (simp add: len date_diff_days_def)
  show ne: "period_days a b \<noteq> []" using le len by auto
  have nth: "period_days a b ! i = fromordinal (toordinal a + int i)" if "i < length (period_days a b)" for i
    using that le by (simp add: period_days_def)
  have "hd (period_days a b) = period_days a b ! 0" using ne by (simp add: hd_conv_nth)
  also have "\<dots> = fromordinal (toordinal a)" using nth[of 0] ne by simp
  finally show "hd (period_days a b) = a" using va by (simp add: fromordinal_toordinal)
  have "last (period_days a b) = period_days a b ! (length (period_days a b) - 1)"
    using ne by (simp add: last_conv_nth)
  also have "\<dots> = fromordinal (toordinal a + int (length (period_days a b) - 1))"
    using nth[of "length (period_days a b) - 1"] ne by simp
  also have "toordinal a + int (length (period_days a b) - 1) = toordinal b"
    using le by (simp add: len)
  finally show "last (period_days a b) = b" using vb by (simp add: fromordinal_toordinal)
  show "valid_date (period_days a b ! i) \<and> date_diff_days (period_days a b ! i) a = int i"
    if "i < length (period_days a b)" for i
  proof -
    have "toordinal a + int i \<le> toordinal b" using that le by (simp add: len)
    from day_in_range(1)[OF va vb _ this] nth[OF that] show ?thesis
      by (simp add: date_diff_days_def toordinal_fromordinal)
  qed
  show "date_add (period_days a b ! i) 1 = Inr (period_days a b ! Suc i)"
    if "Suc i < length (period_days a b)" for i
  proof -
    have i: "i < length (period_days a b)" using that by simp
    have b: "toordinal a + int (Suc i) \<le> toordinal b" using that le by (simp add: len)
    have "1 \<le> toordinal a + int i + 1" "toordinal a + int i + 1 \<le> MAXORDINAL"
      using toordinal_bounds[OF va] toordinal_bounds[OF vb] b by simp_all
    then have "date_add (fromordinal (toordinal a + int i)) 1 =
        Inr (fromordinal (toordinal a + int i + 1))"
      using date_add_Inr[of "fromordinal (toordinal a + int i)" 1]
      by (simp add: toordinal_fromordinal)
    moreover have "toordinal a + int (Suc i) = toordinal a + int i + 1" by simp
    ultimately show ?thesis using nth[OF i] nth[OF that] by (simp only:)
  qed
qed

lemma period_days_sorted:
  assumes va: "valid_date a" and vb: "valid_date b"
  shows "sorted_wrt date_less (period_days a b)"
proof -
  have "sorted_wrt (\<lambda>x y. date_less (fromordinal (toordinal a + x)) (fromordinal (toordinal a + y)))
      [0..toordinal b - toordinal a]"
  proof (rule sorted_wrt_mono_rel[of _ "(<)"])
    fix x y assume x: "x \<in> set [0..toordinal b - toordinal a]"
      and y: "y \<in> set [0..toordinal b - toordinal a]" and xy: "x < y"
    have vx: "valid_date (fromordinal (toordinal a + x))"
      using x by (intro day_in_range(1)[OF va vb]) simp_all
    have vy: "valid_date (fromordinal (toordinal a + y))"
      using y by (intro day_in_range(1)[OF va vb]) simp_all
    show "date_less (fromordinal (toordinal a + x)) (fromordinal (toordinal a + y))"
      using date_less_iff[OF vx vy] xy by (simp add: toordinal_fromordinal)
  next
    show "sorted_wrt (<) [0..toordinal b - toordinal a]"
      by (simp add: sorted_wrt_upto)
  qed
  then show ?thesis by (simp add: period_days_def sorted_wrt_map)
qed

lemma period_days_distinct:
  assumes "valid_date a" "valid_date b"
  shows "distinct (period_days a b)"
proof -
  have "sorted_wrt (\<lambda>x y. x \<noteq> y) (period_days a b)"
    using period_days_sorted[OF assms]
    by (rule sorted_wrt_mono_rel[rotated]) (auto simp: date_less_irrefl)
  then show ?thesis by (simp add: distinct_conv_nth sorted_wrt_iff_nth_less nat_neq_iff)
       (metis nat_neq_iff)
qed

lemma BaseEventView_get_report:
  assumes g: "get_event_data current_date (query_params req ''date'') (date_range_func view)
      = Inr (Inr (events, (a, b)))"
  shows "BaseEventView_get view current_date rows req =
    Inr (Response (PDict [(period_name view, PStr (isoformat a @ str_of '' - '' @ isoformat b)),
                          (''days'', PList (map (day_bucket rows) (period_days a b)))]) 200,
         map (\<lambda>d. [Date_range a b, Date_exact d]) (period_days a b))"
    and "valid_date a" and "valid_date b" and "toordinal a \<le> toordinal b"
proof -
  note e = get_event_data_Inr[OF g]
  from e have p: "valid_date a \<and> valid_date b \<and> toordinal a \<le> toordinal b"
    using date_range_func_props by blast
  then show va: "valid_date a" and vb: "valid_date b" and le: "toordinal a \<le> toordinal b"
    by simp_all
  have ns: "\<forall>n\<in>set [0..date_diff_days b a + 1 - 1]. 0 \<le> n \<and> toordinal a + n \<le> toordinal b"
    by (simp add: date_diff_days_def)
  have l: "days_loop rows [Date_range a b] a [0..date_diff_days b a + 1 - 1] =
    Inr (map (\<lambda>n. day_bucket rows (fromordinal (toordinal a + n))) [0..date_diff_days b a + 1 - 1],
         map (\<lambda>n. [Date_range a b, Date_exact (fromordinal (toordinal a + n))]) [0..date_diff_days b a + 1 - 1])"
    using va vb ns by (rule days_loop_buckets)
  have k: "date_diff_days b a + 1 - 1 = toordinal b - toordinal a"
    by (simp add: date_diff_days_def)
  show "BaseEventView_get view current_date rows req =
    Inr (Response (PDict [(period_name view, PStr (isoformat a @ str_of '' - '' @ isoformat b)),
                          (''days'', PList (map (day_bucket rows) (period_days a b)))]) 200,
         map (\<lambda>d. [Date_range a b, Date_exact d]) (period_days a b))"
    using e l unfolding k
    by (simp add: BaseEventView_get_def g Let_def period_days_def comp_def date_diff_days_def)
qed

lemma sample_week_data:
  "get_event_data sample_today (query_params (sample_request (User 2) (Some (str_of ''2024-08-15''))) ''date'')
      (date_range_func WeekEventView) =
    Inr (Inr ([Date_range \<lparr>year = 2024, month = 8, day = 12\<rparr> \<lparr>year = 2024, month = 8, day = 18\<rparr>],
             (\<lparr>year = 2024, month = 8, day = 12\<rparr>, \<lparr>year = 2024, month = 8, day = 18\<rparr>)))"
  by (simp add: get_event_data_def sample_request_def week_2024_08_15)

lemma sample_month_data:
  "get_event_data sample_today (query_params (sample_request (User 2) (Some (str_of ''2024-08-15''))) ''date'')
      (date_range_func MonthEventView) =
    Inr (Inr ([Date_range \<lparr>year = 2024, month = 8, day = 1\<rparr> \<lparr>year = 2024, month = 8, day = 31\<rparr>],
             (\<lparr>year = 2024, month = 8, day = 1\<rparr>, \<lparr>year = 2024, month = 8, day = 31\<rparr>)))"
  by (simp add: get_event_data_def sample_request_def month_result(1)[OF parse_2024_08_15] date_defs)

lemma sample_year_data:
  "get_event_data sample_today (query_params (sample_request (User 2) (Some (str_of ''2024-08-15''))) ''date'')
      (date_range_func YearEventView) =
    Inr (Inr ([Date_range \<lparr>year = 2024, month = 1, day = 1\<rparr> \<lparr>year = 2024, month = 12, day = 31\<rparr>],
             (\<lparr>year = 2024, month = 1, day = 1\<rparr>, \<lparr>year = 2024, month = 12, day = 31\<rparr>)))"
  by (simp add: get_event_data_def sample_request_def year_result(1)[OF parse_2024_08_15])

lemma sample_authenticated: "IsAuthenticated (sample_request (User 2) p)"
  by (simp add: IsAuthenticated_def is_authenticated_def sample_request_def)

lemma get_event_data_invalid:
  assumes "date_str \<noteq> []"
  shows "get_event_data current_date (Some date_str) (date_range_func view) = Inr (Inl resp)
    \<longleftrightarrow> \<not> accepted_date_text date_str \<and> resp = invalid_date_format"
proof (cases "date_range_func view date_str")
  case (Inl e)
  then show ?thesis
    using assms date_range_func_ValueError[of view date_str] strptime_rejects_iff[of date_str]
    by (cases e) (auto simp: get_event_data_def)
next
  case (Inr r)
  then show ?thesis
    using assms date_range_func_ValueError[of view date_str] strptime_rejects_iff[of date_str]
    by (cases r) (auto simp: get_event_data_def)
qed

lemma BaseEventView_get_cases:
  "(\<exists>e. BaseEventView_get view current_date rows req = Inl e)
   \<or> (\<exists>resp. get_event_data current_date (query_params req ''date'') (date_range_func view) = Inr (Inl resp)
         \<and> BaseEventView_get view current_date rows req = Inr (resp, []))
   \<or> (\<exists>d q. BaseEventView_get view current_date rows req = Inr (Response d 200, q))"
  by (auto simp: BaseEventView_get_def Let_def split: sum.splits prod.splits)

lemma period_endpoint_invalid:
  assumes a: "IsAuthenticated req" and q: "query_params req ''date'' = Some date_str" and n: "date_str \<noteq> []"
  shows "\<not> accepted_date_text date_str \<Longrightarrow>
           period_endpoint view current_date rows req = Inr (invalid_date_format, [])"
    and "accepted_date_text date_str \<Longrightarrow>
           (\<exists>e. period_endpoint view current_date rows req = Inl e)
         \<or> (\<exists>d qs. period_endpoint view current_date rows req = Inr (Response d 200, qs))"
proof -
  note g = get_event_data_invalid[OF n, of current_date view]
  show "period_endpoint view current_date rows req = Inr (invalid_date_format, [])"
    if "\<not> accepted_date_text date_str"
  proof -
    have "get_event_data current_date (Some date_str) (date_range_func view) = Inr (Inl invalid_date_format)"
      using g that by simp
    then show ?thesis using a q by (simp add: period_endpoint_def BaseEventView_get_def)
  qed
  show "(\<exists>e. period_endpoint view current_date rows req = Inl e)
         \<or> (\<exists>d qs. period_endpoint view current_date rows req = Inr (Response d 200, qs))"
    if "accepted_date_text date_str"
    using BaseEventView_get_cases[of view current_date rows req] g that a q
    by (auto simp: period_endpoint_def)
qed

lemma sample_month_data_empty_param:
  "get_event_data sample_today (query_params (sample_request (User 2) (Some (str_of ''''))) ''date'')
      (date_range_func MonthEventView) =
    Inr (Inr ([Date_range \<lparr>year = 2024, month = 8, day = 1\<rparr> \<lparr>year = 2024, month = 8, day = 31\<rparr>],
             (\<lparr>year = 2024, month = 8, day = 1\<rparr>, \<lparr>year = 2024, month = 8, day = 31\<rparr>)))"
  by (simp add: get_event_data_def sample_request_def isoformat_sample_today
      month_result(1)[OF parse_2024_08_01] date_defs)

lemma period_days_set:
  assumes va: "valid_date a" and vb: "valid_date b" and vd: "valid_date d"
  shows "d \<in> set (period_days a b) \<longleftrightarrow> date_le a d \<and> date_le d b"
proof
  assume "d \<in> set (period_days a b)"
  then obtain n where n: "0 \<le> n" "n \<le> toordinal b - toordinal a" and d: "d = fromordinal (toordinal a + n)"
    by (auto simp: period_days_def)
  have "toordinal a + n \<le> toordinal b" using n by simp
  from day_in_range(2,3)[OF va vb n(1) this] show "date_le a d \<and> date_le d b" by (simp add: d)
next
  assume "date_le a d \<and> date_le d b"
  then have o: "toordinal a \<le> toordinal d" "toordinal d \<le> toordinal b"
    using date_le_iff[OF va vd] date_le_iff[OF vd vb] by simp_all
  have "fromordinal (toordinal a + (toordinal d - toordinal a)) = d"
    using fromordinal_toordinal[OF vd] by simp
  moreover have "toordinal d - toordinal a \<in> set [0..toordinal b - toordinal a]" using o by simp
  ultimately show "d \<in> set (period_days a b)"
    unfolding period_days_def set_map by (metis imageI)
qed

lemma period_endpoint_user_independent:
  assumes "IsAuthenticated req1" "IsAuthenticated req2" "query_params req1 ''date'' = query_params req2 ''date''"
  shows "period_endpoint view current_date rows req1 = period_endpoint view current_date rows req2"
  using assms by (simp add: period_endpoint_def BaseEventView_get_def)

lemma sample_authenticated_1: "IsAuthenticated (sample_request (User 1) p)"
  by (simp add: IsAuthenticated_def is_authenticated_def sample_request_def)

text \<open>
  A request without a date resolves for every current date in the month and year
  views, and in the week view for every current date not after 9999-12-26.
\<close>

lemma period_without_date_resolves:
  assumes v: "valid_date current_date" and n: "\<not> truthy date_str"
    and w: "view = WeekEventView \<longrightarrow> date_le current_date \<lparr>year = 9999, month = 12, day = 26\<rparr>"
  shows "\<exists>a b. get_event_data current_date date_str (date_range_func view)
      = Inr (Inr ([Date_range a b], (a, b)))"
proof -
  have p: "strptime_date (isoformat current_date) = Inr current_date"
    using v by (rule strptime_isoformat)
  have "\<exists>a b. date_range_func view (isoformat current_date) = Inr (a, b)"
  proof (cases view)
    case WeekEventView
    with w have "date_le current_date \<lparr>year = 9999, month = 12, day = 26\<rparr>" by simp
    from week_properties(1)[OF p this] WeekEventView show ?thesis by auto
  next
    case MonthEventView
    with month_result(1)[OF p] show ?thesis by auto
  next
    case YearEventView
    with year_result(1)[OF p] show ?thesis by auto
  qed
  then show ?thesis using n by (auto simp: get_event_data_def)
qed

text \<open>
  What a period report shows: the date of the request decides the period, and the
  report lists the events of the table whose date lies in it.
\<close>

lemma range_func_cong:
  assumes "strptime_date s = strptime_date t"
  shows "date_range_func view s = date_range_func view t"
  using assms
  by (cases view)
     (simp_all add: get_start_and_end_of_week_def get_first_and_last_day_of_month_def
        get_first_and_last_day_of_year_def)

lemma period_resolves:
  assumes p: "strptime_date s = Inr D"
    and w: "view = WeekEventView \<longrightarrow> date_le D \<lparr>year = 9999, month = 12, day = 26\<rparr>"
  shows "\<exists>a b. date_range_func view s = Inr (a, b) \<and> date_le a D \<and> date_le D b"
proof (cases view)
  case WeekEventView
  with w have l: "date_le D \<lparr>year = 9999, month = 12, day = 26\<rparr>" by simp
  from week_properties(1,6,9)[OF p l] WeekEventView show ?thesis by auto
next
  case MonthEventView
  note b = parsed_month_bounds[OF p]
  have "date_le (D\<lparr>day := 1\<rparr>) D" "date_le D (D\<lparr>day := days_in_month (year D) (month D)\<rparr>)"
    using b by (simp_all add: date_le_def)
  with month_result(1)[OF p] MonthEventView show ?thesis by auto
next
  case YearEventView
  note b = parsed_month_bounds[OF p]
  have "day D \<le> 31" using days_in_month_le_31[OF b(1,2), of "year D"] b(4) by simp
  then have "date_le \<lparr>year = year D, month = 1, day = 1\<rparr> D"
      "date_le D \<lparr>year = year D, month = 12, day = 31\<rparr>"
    using b by (auto simp: date_le_def)
  with year_result(1)[OF p] YearEventView show ?thesis by auto
qed

lemma get_event_data_resolved:
  assumes r: "if truthy p then strptime_date (the p) = Inr D else D = current_date \<and> valid_date current_date"
    and w: "view = WeekEventView \<longrightarrow> date_le D \<lparr>year = 9999, month = 12, day = 26\<rparr>"
  shows "\<exists>a b. get_event_data current_date p (date_range_func view) = Inr (Inr ([Date_range a b], (a, b)))
           \<and> date_range_func view (isoformat D) = Inr (a, b) \<and> date_le a D \<and> date_le D b"
proof (cases "truthy p")
  case True
  with r have p: "strptime_date (the p) = Inr D" by simp
  then have "valid_date D" by (rule strptime_valid)
  then have "strptime_date (the p) = strptime_date (isoformat D)"
    using p by (simp add: strptime_isoformat)
  then have c: "date_range_func view (the p) = date_range_func view (isoformat D)"
    by (rule range_func_cong)
  from period_resolves[OF p w] obtain a b where
    "date_range_func view (the p) = Inr (a, b)" "date_le a D" "date_le D b" by blast
  then show ?thesis using True c by (auto simp: get_event_data_def)
next
  case False
  with r have d: "D = current_date" "valid_date current_date" by simp_all
  have p: "strptime_date (isoformat D) = Inr D" using d by (simp add: strptime_isoformat)
  from period_resolves[OF p w] obtain a b where
    "date_range_func view (isoformat D) = Inr (a, b)" "date_le a D" "date_le D b" by blast
  then show ?thesis using False d(1) by (auto simp: get_event_data_def)
qed

lemma bucket_events_day_bucket:
  "bucket_events (day_bucket rows d) = map to_representation (filter (\<lambda>e. date e = d) rows)"
  by (simp add: bucket_events_def day_bucket_def pydict_get_def)

lemma report_events_period:
  assumes g: "get_event_data current_date (query_params req ''date'') (date_range_func view)
      = Inr (Inr (events, (a, b)))"
    and v: "\<forall>e\<in>set rows. valid_date (date e)"
  shows "\<exists>body qs. BaseEventView_get view current_date rows req = Inr (Response body 200, qs)
    \<and> set (report_events body) = to_representation ` {e \<in> set rows. date_le a (date e) \<and> date_le (date e) b}"
proof -
  note r = BaseEventView_get_report(1)[OF g, of rows] BaseEventView_get_report(2,3)[OF g]
  let ?body = "PDict [(period_name view, PStr (isoformat a @ str_of '' - '' @ isoformat b)),
                          (''days'', PList (map (day_bucket rows) (period_days a b)))]"
  have n: "period_name view \<noteq> ''days''" by (cases view) simp_all
  have "report_events ?body = concat (map (\<lambda>d. map to_representation (filter (\<lambda>e. date e = d) rows)) (period_days a b))"
    using n by (simp add: report_events_def pydict_get_def comp_def bucket_events_day_bucket)
  then have "set (report_events ?body) = to_representation ` {e \<in> set rows. date e \<in> set (period_days a b)}"
    by auto
  also have "{e \<in> set rows. date e \<in> set (period_days a b)}
      = {e \<in> set rows. date_le a (date e) \<and> date_le (date e) b}"
    using v period_days_set[OF r(2,3)] by blast
  finally show ?thesis using r(1) by blast
qed

lemma period_endpoint_accepted:
  assumes a: "IsAuthenticated req" and q: "query_params req ''date'' = Some date_str" and n: "date_str \<noteq> []"
    and c: "accepted_date_text date_str"
  shows "(\<exists>d qs. period_endpoint view current_date rows req = Inr (Response d 200, qs))
       \<or> (view = WeekEventView \<and> period_endpoint view current_date rows req = Inl OverflowError)"
proof -
  from c obtain D where p: "strptime_date date_str = Inr D"
    using strptime_accepts_iff by blast
  have "(\<exists>a b. date_range_func view date_str = Inr (a, b))
      \<or> (view = WeekEventView \<and> date_range_func view date_str = Inl OverflowError)"
  proof (cases view)
    case WeekEventView
    show ?thesis
    proof (cases "toordinal D - weekday D + 6 \<le> MAXORDINAL")
      case True
      from week_result[OF p True] WeekEventView show ?thesis by simp
    next
      case False
      then have "MAXORDINAL < toordinal D - weekday D + 6" by simp
      from week_overflow[OF p this] WeekEventView show ?thesis by simp
    qed
  next
    case MonthEventView
    with month_result(1)[OF p] show ?thesis by simp
  next
    case YearEventView
    with year_result(1)[OF p] show ?thesis by simp
  qed
  then show ?thesis
  proof
    assume "\<exists>a b. date_range_func view date_str = Inr (a, b)"
    then obtain a b where "date_range_func view date_str = Inr (a, b)" by blast
    then have "get_event_data current_date (query_params req ''date'') (date_range_func view)
        = Inr (Inr ([Date_range a b], (a, b)))"
      using q n by (simp add: get_event_data_def)
    from BaseEventView_get_report(1)[OF this, of rows] show ?thesis
      using a by (simp add: period_endpoint_def)
  next
    assume o: "view = WeekEventView \<and> date_range_func view date_str = Inl OverflowError"
    then have o': "date_range_func view date_str = Inl OverflowError" by blast
    have "get_event_data current_date (query_params req ''date'') (date_range_func view)
        = Inl OverflowError"
      using q n by (simp add: get_event_data_def o')
    then have "BaseEventView_get view current_date rows req = Inl OverflowError"
      by (simp add: BaseEventView_get_def)
    then show ?thesis using a o by (simp add: period_endpoint_def)
  qed
qed

text \<open>An empty \<open>date\<close> parameter is handled as an absent one.\<close>

lemma period_endpoint_empty:
  assumes a: "IsAuthenticated req" and q: "query_params req ''date'' = Some []"
  shows "period_endpoint view current_date rows req
      = period_endpoint view current_date rows (req\<lparr>query_params := (query_params req)(''date'' := None)\<rparr>)"
    and "period_endpoint view current_date rows req \<noteq> Inr (invalid_date_format, qs)"
proof -
  have g: "get_event_data current_date (Some []) f = get_event_data current_date None f" for f
    by (simp add: get_event_data_def)
  show "period_endpoint view current_date rows req
      = period_endpoint view current_date rows (req\<lparr>query_params := (query_params req)(''date'' := None)\<rparr>)"
    using a q by (simp add: period_endpoint_def BaseEventView_get_def IsAuthenticated_def g)
  have "get_event_data current_date (Some []) (date_range_func view) \<noteq> Inr (Inl resp)" for resp
    by (auto simp: get_event_data_def split: sum.splits)
  then show "period_endpoint view current_date rows req \<noteq> Inr (invalid_date_format, qs)"
    using BaseEventView_get_cases[of view current_date rows req] a q
    by (auto simp: period_endpoint_def invalid_date_format_def)
qed

section \<open>Properties of the day report\<close>

lemma day_endpoint_invalid:
  assumes a: "IsAuthenticated req" and q: "query_params req ''date'' = Some date_str" and n: "date_str \<noteq> []"
  shows "\<not> accepted_date_text date_str \<Longrightarrow>
           day_endpoint current_date rows req = Inr (invalid_date_format, [])"
    and "accepted_date_text date_str \<Longrightarrow>
           (\<exists>d qs. day_endpoint current_date rows req = Inr (Response d 200, qs))"
proof -
  show "day_endpoint current_date rows req = Inr (invalid_date_format, [])"
    if "\<not> accepted_date_text date_str"
    using that strptime_rejects_iff[of date_str] a q n
    by (simp add: day_endpoint_def DayEventView_get_def)
  show "\<exists>d qs. day_endpoint current_date rows req = Inr (Response d 200, qs)"
    if "accepted_date_text date_str"
  proof -
    from that obtain D where "strptime_date date_str = Inr D"
      using strptime_accepts_iff by blast
    then show ?thesis using a q n by (simp add: day_endpoint_def DayEventView_get_def Let_def)
  qed
qed

lemma evaluate_exact: "evaluate rows [Date_exact d] = filter (\<lambda>e. date e = d) rows"
  by (simp add: evaluate_def)

lemma DayEventView_get_parsed:
  assumes "query_params req ''date'' = Some date_str" "strptime_date date_str = Inr D"
  shows "DayEventView_get current_date rows req =
    Inr (Response (PDict [(''day'', PStr date_str),
                          (''events'', PList (map to_representation (filter (\<lambda>e. date e = D) rows)))]) 200,
         [[Date_exact D]])"
proof -
  have "date_str \<noteq> []"
  proof
    assume "date_str = []"
    moreover have "strptime_date [] = Inl ValueError" by (simp add: strptime_date_def re_defs)
    ultimately show False using assms(2) by simp
  qed
  then show ?thesis
    using assms by (simp add: DayEventView_get_def Let_def evaluate_exact serializer_data_many_def)
qed

lemma DayEventView_get_today:
  assumes "\<not> truthy (query_params req ''date'')"
  shows "DayEventView_get current_date rows req =
    Inr (Response (PDict [(''day'', PDate current_date),
                          (''events'', PList (map to_representation (filter (\<lambda>e. date e = current_date) rows)))]) 200,
         [[Date_exact current_date]])"
  using assms by (simp add: DayEventView_get_def Let_def evaluate_exact serializer_data_many_def)

lemma DayEventView_get_invalid:
  assumes "query_params req ''date'' = Some date_str" "date_str \<noteq> []" "strptime_date date_str = Inl e"
  shows "DayEventView_get current_date rows req = Inr (invalid_date_format, [])"
proof -
  have "e = ValueError" using assms(3) by (rule strptime_parse_error)
  then show ?thesis using assms by (simp add: DayEventView_get_def Let_def)
qed

lemma day_endpoint_user_independent:
  assumes "IsAuthenticated req1" "IsAuthenticated req2" "query_params req1 ''date'' = query_params req2 ''date''"
  shows "day_endpoint current_date rows req1 = day_endpoint current_date rows req2"
  using assms by (simp add: day_endpoint_def DayEventView_get_def)

lemma day_endpoint_empty:
  assumes a: "IsAuthenticated req" and q: "query_params req ''date'' = Some []"
  shows "day_endpoint current_date rows req
      = day_endpoint current_date rows (req\<lparr>query_params := (query_params req)(''date'' := None)\<rparr>)"
    and "\<exists>d qs. day_endpoint current_date rows req = Inr (Response d 200, qs)"
proof -
  show "day_endpoint current_date rows req
      = day_endpoint current_date rows (req\<lparr>query_params := (query_params req)(''date'' := None)\<rparr>)"
    using a q by (simp add: day_endpoint_def DayEventView_get_def IsAuthenticated_def)
  have "\<not> truthy (query_params req ''date'')" using q by simp
  from DayEventView_get_today[OF this, of current_date rows]
  show "\<exists>d qs. day_endpoint current_date rows req = Inr (Response d 200, qs)"
    using a by (simp add: day_endpoint_def)
qed

section \<open>Properties of the create and detail views\<close>

lemma evaluate_owner_id:
  "evaluate rows (get_queryset req @ [Id_exact ident]) =
     filter (\<lambda>e. user req = User (creator e) \<and> id_event e = ident) rows"
  by (simp add: evaluate_def get_queryset_def)

lemma get_object_not_owner:
  assumes u: "user req = User u" and E: "E \<in> set rows" and c: "creator E \<noteq> u"
    and t: "table_ok rows"
  shows "get_object rows req (id_event E) = Inr (Inl not_found)"
proof -
  have "filter (\<lambda>e. user req = User (creator e) \<and> id_event e = id_event E) rows = []"
  proof (rule ccontr)
    assume "filter (\<lambda>e. user req = User (creator e) \<and> id_event e = id_event E) rows \<noteq> []"
    then obtain e where e: "e \<in> set rows" "user req = User (creator e)" "id_event e = id_event E"
      by (auto simp: filter_empty_conv)
    have "inj_on id_event (set rows)" using t by (simp add: table_ok_def distinct_map)
    then have "e = E" using e(1,3) E by (auto dest: inj_onD)
    then show False using e(2) u c by simp
  qed
  then show ?thesis by (simp add: get_object_def evaluate_owner_id)
qed

lemma permissions_of_user: "user req = User u \<Longrightarrow> check_permissions req"
  by (simp add: check_permissions_def IsAuthenticated_def has_permission_def is_authenticated_def)

lemma run_field_other_key:
  assumes "k \<noteq> key"
  shows "run_field partial (d(k := v)) key parse = run_field partial d key parse"
  using assms by (simp add: run_field_def)

lemma to_internal_value_ignores:
  assumes "k \<notin> set writable_keys"
  shows "to_internal_value P partial (d(k := v)) = to_internal_value P partial d"
  using assms by (simp add: to_internal_value_def writable_fields_def writable_keys_def run_field_other_key)

lemma serializer_create_fields:
  assumes "serializer_create new_pkid new_id creator_pk vd = Inr e"
  shows "pkid e = new_pkid \<and> id_event e = new_id \<and> creator e = creator_pk"
  using assms by (induction new_pkid new_id creator_pk vd rule: serializer_create.induct) auto

lemma insert_row_Inr:
  assumes "insert_row rows e = Inr rows'"
  shows "rows' = rows @ [e]" and "table_ok rows \<Longrightarrow> table_ok rows'"
  using assms by (auto simp: insert_row_def table_ok_def split: if_splits)

lemma EventCreateView_post_cases:
  assumes u: "user req = User u"
    and r: "EventCreateView_post P new_pkid new_id rows req = Inr (Response body status, rows')"
  shows "(status = 400 \<and> rows' = rows)
       \<or> (status = 201 \<and> (\<exists>e. rows' = rows @ [e] \<and> body = to_representation e
              \<and> creator e = u \<and> pkid e = new_pkid \<and> id_event e = new_id))"
proof -
  have a: "IsAuthenticated req" using u by (simp add: IsAuthenticated_def is_authenticated_def)
  show ?thesis
  proof (cases "to_internal_value P False (data req)")
    case (Inl errs)
    then show ?thesis using r a by (simp add: EventCreateView_post_def)
  next
    case (Inr vd)
    from r a Inr u obtain e where c: "serializer_create new_pkid new_id u vd = Inr e"
      by (cases "serializer_create new_pkid new_id u vd")
         (simp_all add: EventCreateView_post_def perform_create_def)
    from r a Inr u c obtain rs where i: "insert_row rows e = Inr rs"
      by (cases "insert_row rows e") (simp_all add: EventCreateView_post_def perform_create_def)
    from r a Inr u c i have "status = 201" "body = to_representation e" "rows' = rs"
      by (simp_all add: EventCreateView_post_def perform_create_def)
    then show ?thesis using insert_row_Inr(1)[OF i] serializer_create_fields[OF c] by simp
  qed
qed

lemma EventCreateView_post_ignores:
  assumes "k \<notin> set writable_keys"
  shows "EventCreateView_post P new_pkid new_id rows (req\<lparr>data := (data req)(k := v)\<rparr>)
    = EventCreateView_post P new_pkid new_id rows req"
proof -
  have "perform_create new_pkid new_id (req\<lparr>data := (data req)(k := v)\<rparr>) =
      perform_create new_pkid new_id req"
    by (rule ext) (simp add: perform_create_def)
  then show ?thesis
    using to_internal_value_ignores[OF assms, of P False "data req" v]
    by (simp add: EventCreateView_post_def IsAuthenticated_def cong: sum.case_cong)
qed

lemma sample_validated:
  "to_internal_value sample_parsers False sample_body =
     Inr [Name (str_of ''review''), Description (str_of ''weekly''), Date \<lparr>year = 2024, month = 8, day = 14\<rparr>,
          Start_event (10, 0, 0), End_event (11, 0, 0)]"
  by (simp add: to_internal_value_def writable_fields_def run_field_def sample_parsers_def sample_body_def)

lemma setattr_keeps: "pkid (setattr e v) = pkid e \<and> id_event (setattr e v) = id_event e
    \<and> creator (setattr e v) = creator e"
  by (cases v) simp_all

lemma serializer_update_keeps:
  "pkid (serializer_update e vd) = pkid e \<and> id_event (serializer_update e vd) = id_event e
    \<and> creator (serializer_update e vd) = creator e"
  unfolding serializer_update_def
  by (induction vd arbitrary: e) (simp_all add: setattr_keeps)

lemma get_object_Inr:
  assumes "get_object rows req ident = Inr (Inr obj)"
  shows "obj \<in> set rows \<and> id_event obj = ident \<and> user req = User (creator obj)"
proof -
  let ?L = "filter (\<lambda>e. user req = User (creator e) \<and> id_event e = ident) rows"
  from assms have "?L = [obj]"
    unfolding get_object_def evaluate_owner_id
    by (cases ?L rule: list.exhaust; cases "tl ?L") (auto split: if_splits)
  then have "obj \<in> set ?L" by simp
  then show ?thesis by simp
qed

lemma save_row_keeps:
  assumes d: "distinct (map pkid rows)" and i: "instance \<in> set rows"
    and k: "pkid instance' = pkid instance"
  shows "length (save_row rows instance') = length rows"
    and "\<And>n. n < length rows \<Longrightarrow> save_row rows instance' ! n =
           (if rows ! n = instance then instance' else rows ! n)"
proof -
  show "length (save_row rows instance') = length rows" by (simp add: save_row_def)
  show "save_row rows instance' ! n = (if rows ! n = instance then instance' else rows ! n)"
    if "n < length rows" for n
  proof -
    have "inj_on pkid (set rows)" using d by (simp add: distinct_map)
    then have "pkid (rows ! n) = pkid instance \<longleftrightarrow> rows ! n = instance"
      using that i by (auto dest: inj_onD)
    then show ?thesis using that k by (simp add: save_row_def)
  qed
qed

lemma update_cases:
  assumes r: "EventRetrieveUpdateDeleteView_update P partial rows req ident = Inr (resp, rows')"
  shows "rows' = rows
    \<or> (\<exists>instance vd. instance \<in> set rows \<and> id_event instance = ident
          \<and> user req = User (creator instance)
          \<and> to_internal_value P partial (data req) = Inr vd
          \<and> resp = Response (to_representation (serializer_update instance vd)) 200
          \<and> rows' = save_row rows (serializer_update instance vd))"
proof (cases "check_permissions req")
  case False
  then show ?thesis using r by (simp add: EventRetrieveUpdateDeleteView_update_def)
next
  case True
  show ?thesis
  proof (cases "get_object rows req ident")
    case (Inl e)
    then show ?thesis using r True by (simp add: EventRetrieveUpdateDeleteView_update_def)
  next
    case (Inr x)
    show ?thesis
    proof (cases x)
      case (Inl resp')
      then show ?thesis using r True Inr by (simp add: EventRetrieveUpdateDeleteView_update_def)
    next
      case o: (Inr inst)
      note g = get_object_Inr[OF Inr[unfolded o]]
      show ?thesis
      proof (cases "to_internal_value P partial (data req)")
        case (Inl errs)
        then show ?thesis using r True Inr o by (simp add: EventRetrieveUpdateDeleteView_update_def)
      next
        case v: (Inr vd)
        then show ?thesis using r True Inr o g
          by (auto simp: EventRetrieveUpdateDeleteView_update_def Let_def)
      qed
    qed
  qed
qed

lemma update_ignores:
  assumes "k \<notin> set writable_keys"
  shows "EventRetrieveUpdateDeleteView_update P partial rows (req\<lparr>data := (data req)(k := v)\<rparr>) ident
    = EventRetrieveUpdateDeleteView_update P partial rows req ident"
proof -
  have "has_object_permission (req\<lparr>data := (data req)(k := v)\<rparr>) = has_object_permission req"
    by (rule ext) (simp add: has_object_permission_def)
  then have "get_object rows (req\<lparr>data := (data req)(k := v)\<rparr>) ident = get_object rows req ident"
    by (simp add: get_object_def get_queryset_def cong: list.case_cong)
  moreover have "check_permissions (req\<lparr>data := (data req)(k := v)\<rparr>) = check_permissions req"
    by (simp add: check_permissions_def IsAuthenticated_def has_permission_def)
  ultimately show ?thesis
    using to_internal_value_ignores[OF assms, of P partial "data req" v]
    by (simp add: EventRetrieveUpdateDeleteView_update_def cong: sum.case_cong)
qed

lemma update_keeps:
  assumes t: "table_ok rows"
    and r: "EventRetrieveUpdateDeleteView_update P partial rows req ident = Inr (resp, rows')"
  shows "length rows' = length rows"
    and "\<And>n. n < length rows \<Longrightarrow> pkid (rows' ! n) = pkid (rows ! n)
          \<and> id_event (rows' ! n) = id_event (rows ! n) \<and> creator (rows' ! n) = creator (rows ! n)
          \<and> (id_event (rows ! n) \<noteq> ident \<longrightarrow> rows' ! n = rows ! n)"
proof -
  from update_cases[OF r] consider (same) "rows' = rows"
    | (upd) inst vd where "inst \<in> set rows" "id_event inst = ident"
        "rows' = save_row rows (serializer_update inst vd)"
    by blast
  then have "length rows' = length rows \<and> (\<forall>n<length rows. pkid (rows' ! n) = pkid (rows ! n)
          \<and> id_event (rows' ! n) = id_event (rows ! n) \<and> creator (rows' ! n) = creator (rows ! n)
          \<and> (id_event (rows ! n) \<noteq> ident \<longrightarrow> rows' ! n = rows ! n))"
  proof cases
    case same
    then show ?thesis by simp
  next
    case upd
    have d: "distinct (map pkid rows)" using t by (simp add: table_ok_def)
    note k = serializer_update_keeps[of inst vd]
    from save_row_keeps[OF d upd(1), of "serializer_update inst vd"] k upd(2,3)
    show ?thesis by auto
  qed
  then show "length rows' = length rows"
    and "\<And>n. n < length rows \<Longrightarrow> pkid (rows' ! n) = pkid (rows ! n)
          \<and> id_event (rows' ! n) = id_event (rows ! n) \<and> creator (rows' ! n) = creator (rows ! n)
          \<and> (id_event (rows ! n) \<noteq> ident \<longrightarrow> rows' ! n = rows ! n)"
    by simp_all
qed

lemma sample_validated_owner:
  "to_internal_value sample_parsers False (sample_body(''pkid'' \<mapsto> PStr (str_of ''7''), ''id'' \<mapsto> PUuid 99)) =
     Inr [Name (str_of ''review''), Description (str_of ''weekly''), Date \<lparr>year = 2024, month = 8, day = 14\<rparr>,
          Start_event (10, 0, 0), End_event (11, 0, 0)]"
  by (simp add: to_internal_value_def writable_fields_def run_field_def sample_parsers_def sample_body_def)

text \<open>The requests that write keep the constraints of the table.\<close>

lemma create_keeps_table_ok:
  assumes "table_ok rows"
    and "EventCreateView_post P new_pkid new_id rows req = Inr (resp, rows')"
  shows "table_ok rows'"
  using assms
  by (auto simp: EventCreateView_post_def insert_row_def table_ok_def
        split: if_splits sum.splits)

lemma update_keeps_table_ok:
  assumes t: "table_ok rows"
    and r: "EventRetrieveUpdateDeleteView_update P partial rows req ident = Inr (resp, rows')"
  shows "table_ok rows'"
proof -
  note k = update_keeps[OF t r]
  have "map pkid rows' = map pkid rows" "map id_event rows' = map id_event rows"
    using k by (simp_all add: list_eq_iff_nth_eq)
  then show ?thesis using t by (simp add: table_ok_def)
qed

lemma delete_keeps_table_ok:
  assumes "table_ok rows"
    and "EventRetrieveUpdateDeleteView_delete rows req ident = Inr (resp, rows')"
  shows "table_ok rows'"
  using assms
  by (auto simp: EventRetrieveUpdateDeleteView_delete_def delete_row_def table_ok_def distinct_map_filter
        split: if_splits sum.splits)

text \<open>The owner of an event reaches it through the detail view.\<close>

lemma owner_retrieves_event:
  assumes u: "user req = User (creator E)" and E: "E \<in> set rows" and t: "table_ok rows"
  shows "EventRetrieveUpdateDeleteView_get rows req (id_event E) = Inr (Response (to_representation E) 200, rows)"
proof -
  have inj: "inj_on id_event (set rows)" using t by (simp add: table_ok_def distinct_map)
  have d: "distinct rows" using t by (simp add: table_ok_def distinct_map)
  have "filter (\<lambda>e. user req = User (creator e) \<and> id_event e = id_event E) rows = filter (\<lambda>e. e = E) rows"
    using inj E u by (intro filter_cong) (auto dest: inj_onD)
  also have "\<dots> = [E]"
    using d E by (induction rows) (auto simp: filter_empty_conv)
  finally have "get_object rows req (id_event E) = Inr (Inr E)"
    using u by (simp add: get_object_def evaluate_owner_id has_object_permission_def)
  then show ?thesis
    using permissions_of_user[OF u] by (simp add: EventRetrieveUpdateDeleteView_get_def)
qed

section \<open>The claims of the specification\<close>

text \<open>
  C1.  For every authenticated week, month or year request whose date resolves to the
  range from \<open>start_date\<close> to \<open>end_date\<close>, the response has status 200 and two keys.
  The first is named after the kind of period, \<open>week\<close> for the week report, \<open>month\<close> for
  the month report and \<open>year\<close> for the year report, and holds the text \<open>start - end\<close>;
  the second is \<open>days\<close>, with one bucket per day.
  The days are \<open>(end - start).days + 1\<close> many, begin at \<open>start_date\<close>, end at
  \<open>end_date\<close>, each is the day after its predecessor, so they increase strictly and
  none is repeated or left out; a bucket holds the serialized events of its day, an
  empty list when the day has none.
\<close>

theorem period_report_one_bucket_per_day:
  assumes "IsAuthenticated req"
    and "get_event_data current_date (query_params req ''date'') (date_range_func view)
          = Inr (Inr (events, (start_date, end_date)))"
  shows "\<exists>days queries.
      period_endpoint view current_date rows req =
        Inr (Response (PDict [((case view of WeekEventView \<Rightarrow> ''week''
                                 | MonthEventView \<Rightarrow> ''month''
                                 | YearEventView \<Rightarrow> ''year''),
                               PStr (isoformat start_date @ str_of '' - '' @ isoformat end_date)),
                              (''days'', PList (map (day_bucket rows) days))]) 200,
             queries)
    \<and> int (length days) = date_diff_days end_date start_date + 1
    \<and> days \<noteq> [] \<and> hd days = start_date \<and> last days = end_date
    \<and> (\<forall>i<length days. valid_date (days ! i) \<and> date_diff_days (days ! i) start_date = int i)
    \<and> (\<forall>i. Suc i < length days \<longrightarrow> date_add (days ! i) 1 = Inr (days ! Suc i))
    \<and> sorted_wrt date_less days \<and> distinct days
    \<and> (\<forall>d\<in>set days. filter (\<lambda>e. date e = d) rows = [] \<longrightarrow>
          day_bucket rows d = PDict [(''day'', PDate d), (''events'', PList [])])"
proof -
  note r = BaseEventView_get_report(1)[OF assms(2), of rows] BaseEventView_get_report(2,3,4)[OF assms(2)]
  note p = period_days_props[OF r(2,3,4)]
  let ?days = "period_days start_date end_date"
  have k: "period_name view = (case view of WeekEventView \<Rightarrow> ''week''
                                 | MonthEventView \<Rightarrow> ''month''
                                 | YearEventView \<Rightarrow> ''year'')"
    by (cases view) simp_all
  have 1: "period_endpoint view current_date rows req =
        Inr (Response (PDict [((case view of WeekEventView \<Rightarrow> ''week''
                                 | MonthEventView \<Rightarrow> ''month''
                                 | YearEventView \<Rightarrow> ''year''),
                               PStr (isoformat start_date @ str_of '' - '' @ isoformat end_date)),
                              (''days'', PList (map (day_bucket rows) ?days))]) 200,
             map (\<lambda>d. [Date_range start_date end_date, Date_exact d]) ?days)"
    using assms(1) r(1) unfolding k by (simp add: period_endpoint_def)
  have 2: "\<forall>i<length ?days. valid_date (?days ! i) \<and> date_diff_days (?days ! i) start_date = int i"
    using p(5) by blast
  have 3: "\<forall>i. Suc i < length ?days \<longrightarrow> date_add (?days ! i) 1 = Inr (?days ! Suc i)"
    using p(6) by blast
  have 4: "sorted_wrt date_less ?days" "distinct ?days"
    using r(2,3) by (rule period_days_sorted, rule period_days_distinct)
  have 5: "\<forall>d\<in>set ?days. filter (\<lambda>e. date e = d) rows = [] \<longrightarrow>
          day_bucket rows d = PDict [(''day'', PDate d), (''events'', PList [])]"
    by (simp add: day_bucket_def)
  show ?thesis
    using 1 p(1,2,3,4) 2 3 4 5 by blast
qed

theorem period_report_one_bucket_per_day_witness:
  "IsAuthenticated (sample_request (User 2) (Some (str_of ''2024-08-15'')))
   \<and> get_event_data sample_today (query_params (sample_request (User 2) (Some (str_of ''2024-08-15''))) ''date'')
        (date_range_func WeekEventView) =
      Inr (Inr ([Date_range \<lparr>year = 2024, month = 8, day = 12\<rparr> \<lparr>year = 2024, month = 8, day = 18\<rparr>],
               (\<lparr>year = 2024, month = 8, day = 12\<rparr>, \<lparr>year = 2024, month = 8, day = 18\<rparr>)))
   \<and> get_event_data sample_today (query_params (sample_request (User 2) (Some (str_of ''2024-08-15''))) ''date'')
        (date_range_func MonthEventView) =
      Inr (Inr ([Date_range \<lparr>year = 2024, month = 8, day = 1\<rparr> \<lparr>year = 2024, month = 8, day = 31\<rparr>],
               (\<lparr>year = 2024, month = 8, day = 1\<rparr>, \<lparr>year = 2024, month = 8, day = 31\<rparr>)))
   \<and> get_event_data sample_today (query_params (sample_request (User 2) (Some (str_of ''2024-08-15''))) ''date'')
        (date_range_func YearEventView) =
      Inr (Inr ([Date_range \<lparr>year = 2024, month = 1, day = 1\<rparr> \<lparr>year = 2024, month = 12, day = 31\<rparr>],
               (\<lparr>year = 2024, month = 1, day = 1\<rparr>, \<lparr>year = 2024, month = 12, day = 31\<rparr>)))
   \<and> (\<exists>days queries.
        period_endpoint WeekEventView sample_today [sample_event] (sample_request (User 2) (Some (str_of ''2024-08-15''))) =
          Inr (Response (PDict [(''week'', PStr (str_of ''2024-08-12 - 2024-08-18'')),
                                (''days'', PList (map (day_bucket [sample_event]) days))]) 200,
               queries)
      \<and> int (length days) = 7
      \<and> hd days = \<lparr>year = 2024, month = 8, day = 12\<rparr>
      \<and> last days = \<lparr>year = 2024, month = 8, day = 18\<rparr>
      \<and> distinct days)
   \<and> (\<exists>days queries.
        period_endpoint MonthEventView sample_today [sample_event] (sample_request (User 2) (Some (str_of ''2024-08-15''))) =
          Inr (Response (PDict [(''month'', PStr (str_of ''2024-08-01 - 2024-08-31'')),
                                (''days'', PList (map (day_bucket [sample_event]) days))]) 200,
               queries)
      \<and> int (length days) = 31
      \<and> hd days = \<lparr>year = 2024, month = 8, day = 1\<rparr>
      \<and> last days = \<lparr>year = 2024, month = 8, day = 31\<rparr>
      \<and> distinct days)
   \<and> (\<exists>days queries.
        period_endpoint YearEventView sample_today [sample_event] (sample_request (User 2) (Some (str_of ''2024-08-15''))) =
          Inr (Response (PDict [(''year'', PStr (str_of ''2024-01-01 - 2024-12-31'')),
                                (''days'', PList (map (day_bucket [sample_event]) days))]) 200,
               queries)
      \<and> int (length days) = 366
      \<and> hd days = \<lparr>year = 2024, month = 1, day = 1\<rparr>
      \<and> last days = \<lparr>year = 2024, month = 12, day = 31\<rparr>
      \<and> distinct days)"
proof -
  have d: "date_diff_days \<lparr>year = 2024, month = 8, day = 18\<rparr> \<lparr>year = 2024, month = 8, day = 12\<rparr> + 1 = 7"
      "date_diff_days \<lparr>year = 2024, month = 8, day = 31\<rparr> \<lparr>year = 2024, month = 8, day = 1\<rparr> + 1 = 31"
      "date_diff_days \<lparr>year = 2024, month = 12, day = 31\<rparr> \<lparr>year = 2024, month = 1, day = 1\<rparr> + 1 = 366"
    by (simp_all add: date_diff_days_def date_defs)
  have t: "str_of ''2024-08-12'' @ str_of '' - '' @ str_of ''2024-08-18'' = str_of ''2024-08-12 - 2024-08-18''"
      "str_of ''2024-08-01'' @ str_of '' - '' @ str_of ''2024-08-31'' = str_of ''2024-08-01 - 2024-08-31''"
      "str_of ''2024-01-01'' @ str_of '' - '' @ str_of ''2024-12-31'' = str_of ''2024-01-01 - 2024-12-31''"
    by (simp_all add: str_of_def)
  from period_report_one_bucket_per_day[OF sample_authenticated sample_week_data, of "[sample_event]"]
  obtain days queries where
    "period_endpoint WeekEventView sample_today [sample_event] (sample_request (User 2) (Some (str_of ''2024-08-15''))) =
          Inr (Response (PDict [(''week'', PStr (str_of ''2024-08-12 - 2024-08-18'')),
                                (''days'', PList (map (day_bucket [sample_event]) days))]) 200,
               queries)"
    "int (length days) = 7" "hd days = \<lparr>year = 2024, month = 8, day = 12\<rparr>"
    "last days = \<lparr>year = 2024, month = 8, day = 18\<rparr>" "distinct days"
    unfolding d isoformat_2024_08_12 isoformat_2024_08_18 t period_view.case by auto
  then have w: "\<exists>days queries.
        period_endpoint WeekEventView sample_today [sample_event] (sample_request (User 2) (Some (str_of ''2024-08-15''))) =
          Inr (Response (PDict [(''week'', PStr (str_of ''2024-08-12 - 2024-08-18'')),
                                (''days'', PList (map (day_bucket [sample_event]) days))]) 200,
               queries)
      \<and> int (length days) = 7
      \<and> hd days = \<lparr>year = 2024, month = 8, day = 12\<rparr>
      \<and> last days = \<lparr>year = 2024, month = 8, day = 18\<rparr>
      \<and> distinct days"
    by blast
  from period_report_one_bucket_per_day[OF sample_authenticated sample_month_data, of "[sample_event]"]
  obtain days queries where
    "period_endpoint MonthEventView sample_today [sample_event] (sample_request (User 2) (Some (str_of ''2024-08-15''))) =
          Inr (Response (PDict [(''month'', PStr (str_of ''2024-08-01 - 2024-08-31'')),
                                (''days'', PList (map (day_bucket [sample_event]) days))]) 200,
               queries)"
    "int (length days) = 31" "hd days = \<lparr>year = 2024, month = 8, day = 1\<rparr>"
    "last days = \<lparr>year = 2024, month = 8, day = 31\<rparr>" "distinct days"
    unfolding d isoformat_2024_08_01 isoformat_2024_08_31 t period_view.case by auto
  then have m: "\<exists>days queries.
        period_endpoint MonthEventView sample_today [sample_event] (sample_request (User 2) (Some (str_of ''2024-08-15''))) =
          Inr (Response (PDict [(''month'', PStr (str_of ''2024-08-01 - 2024-08-31'')),
                                (''days'', PList (map (day_bucket [sample_event]) days))]) 200,
               queries)
      \<and> int (length days) = 31
      \<and> hd days = \<lparr>year = 2024, month = 8, day = 1\<rparr>
      \<and> last days = \<lparr>year = 2024, month = 8, day = 31\<rparr>
      \<and> distinct days"
    by blast
  from period_report_one_bucket_per_day[OF sample_authenticated sample_year_data, of "[sample_event]"]
  obtain days queries where
    "period_endpoint YearEventView sample_today [sample_event] (sample_request (User 2) (Some (str_of ''2024-08-15''))) =
          Inr (Response (PDict [(''year'', PStr (str_of ''2024-01-01 - 2024-12-31'')),
                                (''days'', PList (map (day_bucket [sample_event]) days))]) 200,
               queries)"
    "int (length days) = 366" "hd days = \<lparr>year = 2024, month = 1, day = 1\<rparr>"
    "last days = \<lparr>year = 2024, month = 12, day = 31\<rparr>" "distinct days"
    unfolding d isoformat_2024_01_01 isoformat_2024_12_31 t period_view.case by auto
  then have y: "\<exists>days queries.
        period_endpoint YearEventView sample_today [sample_event] (sample_request (User 2) (Some (str_of ''2024-08-15''))) =
          Inr (Response (PDict [(''year'', PStr (str_of ''2024-01-01 - 2024-12-31'')),
                                (''days'', PList (map (day_bucket [sample_event]) days))]) 200,
               queries)
      \<and> int (length days) = 366
      \<and> hd days = \<lparr>year = 2024, month = 1, day = 1\<rparr>
      \<and> last days = \<lparr>year = 2024, month = 12, day = 31\<rparr>
      \<and> distinct days"
    by blast
  show ?thesis
    using sample_authenticated sample_week_data sample_month_data sample_year_data w m y
    by (intro conjI)
qed

text \<open>
  C2 (as amended).  Take an authenticated day, week, month or year request that supplies
  a \<open>date\<close> parameter.

  When the text is not empty and is not one the fixed format \<open>%Y-%m-%d\<close> accepts, the
  response is exactly the body \<open>{"error": "Invalid date format."}\<close> with status 400,
  and no queryset was evaluated.  When it is not empty and is accepted, the request
  ends in a response of status 200, or, in the week report only, in an uncaught
  \<open>OverflowError\<close>; never in the validation error.

  When the text is empty, the request is handled exactly as the same request without
  the parameter; the day report then has status 200, and the period report is never
  the validation error.

  The accepted texts are those of \<open>accepted_date_text\<close>: four decimal digits of any
  script, a hyphen, a month written \<open>1\<close> to \<open>9\<close>, \<open>01\<close> to \<open>09\<close> or \<open>10\<close> to \<open>12\<close> in the
  digits of ASCII, a hyphen, and a day written \<open>1\<close> to \<open>9\<close>, \<open>01\<close> to \<open>09\<close>, a space and
  \<open>1\<close> to \<open>9\<close>, \<open>30\<close> or \<open>31\<close> in the digits of ASCII, or \<open>1\<close> or \<open>2\<close> followed by a
  decimal digit of any script; with nothing before or after, and naming a date that
  exists.  The text \<open>not-a-date\<close> is rejected.
\<close>

theorem invalid_date_text_validation_error:
  assumes "IsAuthenticated req" and "query_params req ''date'' = Some date_str"
  shows "(date_str \<noteq> [] \<and> \<not> accepted_date_text date_str \<longrightarrow>
            period_endpoint view current_date rows req = Inr (invalid_date_format, [])
          \<and> day_endpoint current_date rows req = Inr (invalid_date_format, []))
       \<and> (date_str \<noteq> [] \<and> accepted_date_text date_str \<longrightarrow>
            ((\<exists>d qs. period_endpoint view current_date rows req = Inr (Response d 200, qs))
              \<or> (view = WeekEventView \<and> period_endpoint view current_date rows req = Inl OverflowError))
          \<and> (\<exists>d qs. day_endpoint current_date rows req = Inr (Response d 200, qs)))
       \<and> (date_str = [] \<longrightarrow>
            period_endpoint view current_date rows req
              = period_endpoint view current_date rows (req\<lparr>query_params := (query_params req)(''date'' := None)\<rparr>)
          \<and> day_endpoint current_date rows req
              = day_endpoint current_date rows (req\<lparr>query_params := (query_params req)(''date'' := None)\<rparr>)
          \<and> (\<forall>qs. period_endpoint view current_date rows req \<noteq> Inr (invalid_date_format, qs))
          \<and> (\<exists>d qs. day_endpoint current_date rows req = Inr (Response d 200, qs)))
       \<and> invalid_date_format = Response (PDict [(''error'', PStr (str_of ''Invalid date format.''))]) 400
       \<and> \<not> accepted_date_text (str_of ''not-a-date'')"
proof -
  have 1: "period_endpoint view current_date rows req = Inr (invalid_date_format, [])
          \<and> day_endpoint current_date rows req = Inr (invalid_date_format, [])"
    if "date_str \<noteq> []" "\<not> accepted_date_text date_str"
    using period_endpoint_invalid(1)[OF assms that] day_endpoint_invalid(1)[OF assms that] by simp
  have 2: "((\<exists>d qs. period_endpoint view current_date rows req = Inr (Response d 200, qs))
              \<or> (view = WeekEventView \<and> period_endpoint view current_date rows req = Inl OverflowError))
          \<and> (\<exists>d qs. day_endpoint current_date rows req = Inr (Response d 200, qs))"
    if "date_str \<noteq> []" "accepted_date_text date_str"
    using period_endpoint_accepted[OF assms that] day_endpoint_invalid(2)[OF assms that] by simp
  have 3: "period_endpoint view current_date rows req
              = period_endpoint view current_date rows (req\<lparr>query_params := (query_params req)(''date'' := None)\<rparr>)
          \<and> day_endpoint current_date rows req
              = day_endpoint current_date rows (req\<lparr>query_params := (query_params req)(''date'' := None)\<rparr>)
          \<and> (\<forall>qs. period_endpoint view current_date rows req \<noteq> Inr (invalid_date_format, qs))
          \<and> (\<exists>d qs. day_endpoint current_date rows req = Inr (Response d 200, qs))"
    if e: "date_str = []"
  proof -
    have q: "query_params req ''date'' = Some []" using assms(2) e by simp
    show ?thesis
      using period_endpoint_empty[OF assms(1) q] day_endpoint_empty[OF assms(1) q] by blast
  qed
  have 4: "\<not> accepted_date_text (str_of ''not-a-date'')"
    using strptime_rejects_iff[of "str_of ''not-a-date''"] parse_not_a_date by simp
  have 5: "invalid_date_format = Response (PDict [(''error'', PStr (str_of ''Invalid date format.''))]) 400"
    by (simp add: invalid_date_format_def)
  show ?thesis using 1 2 3 4 5 by blast
qed

theorem invalid_date_text_validation_error_witness:
  "IsAuthenticated (sample_request (User 2) (Some (str_of ''not-a-date'')))
   \<and> query_params (sample_request (User 2) (Some (str_of ''not-a-date''))) ''date'' = Some (str_of ''not-a-date'')
   \<and> str_of ''not-a-date'' \<noteq> []
   \<and> \<not> accepted_date_text (str_of ''not-a-date'')
   \<and> period_endpoint WeekEventView sample_today [sample_event] (sample_request (User 2) (Some (str_of ''not-a-date'')))
        = Inr (Response (PDict [(''error'', PStr (str_of ''Invalid date format.''))]) 400, [])
   \<and> day_endpoint sample_today [sample_event] (sample_request (User 2) (Some (str_of ''not-a-date'')))
        = Inr (Response (PDict [(''error'', PStr (str_of ''Invalid date format.''))]) 400, [])
   \<and> query_params (sample_request (User 2) (Some ([Nd 0 D2, Nd 0 D0, Nd 0 D2, Nd 0 D4] @ str_of ''-08-15''))) ''date''
        = Some ([Nd 0 D2, Nd 0 D0, Nd 0 D2, Nd 0 D4] @ str_of ''-08-15'')
   \<and> [Nd 0 D2, Nd 0 D0, Nd 0 D2, Nd 0 D4] @ str_of ''-08-15'' \<noteq> []
   \<and> accepted_date_text ([Nd 0 D2, Nd 0 D0, Nd 0 D2, Nd 0 D4] @ str_of ''-08-15'')
   \<and> (\<exists>d qs. period_endpoint MonthEventView sample_today [sample_event]
                (sample_request (User 2) (Some ([Nd 0 D2, Nd 0 D0, Nd 0 D2, Nd 0 D4] @ str_of ''-08-15'')))
              = Inr (Response d 200, qs))
   \<and> (\<exists>d qs. day_endpoint sample_today [sample_event]
                (sample_request (User 2) (Some ([Nd 0 D2, Nd 0 D0, Nd 0 D2, Nd 0 D4] @ str_of ''-08-15'')))
              = Inr (Response d 200, qs))
   \<and> query_params (sample_request (User 2) (Some (str_of ''2024-08- 5''))) ''date'' = Some (str_of ''2024-08- 5'')
   \<and> str_of ''2024-08- 5'' \<noteq> []
   \<and> accepted_date_text (str_of ''2024-08- 5'')
   \<and> (\<exists>d qs. period_endpoint YearEventView sample_today [sample_event]
                (sample_request (User 2) (Some (str_of ''2024-08- 5'')))
              = Inr (Response d 200, qs))
   \<and> (\<exists>d qs. day_endpoint sample_today [sample_event] (sample_request (User 2) (Some (str_of ''2024-08- 5'')))
              = Inr (Response d 200, qs))
   \<and> query_params (sample_request (User 2) (Some (str_of ''''))) ''date'' = Some (str_of '''')
   \<and> str_of '''' = []
   \<and> period_endpoint WeekEventView sample_today [sample_event] (sample_request (User 2) (Some (str_of '''')))
        = period_endpoint WeekEventView sample_today [sample_event] (sample_request (User 2) None)
   \<and> day_endpoint sample_today [sample_event] (sample_request (User 2) (Some (str_of '''')))
        = day_endpoint sample_today [sample_event] (sample_request (User 2) None)
   \<and> period_endpoint WeekEventView sample_today [sample_event] (sample_request (User 2) (Some (str_of '''')))
        \<noteq> Inr (Response (PDict [(''error'', PStr (str_of ''Invalid date format.''))]) 400, [])"
proof -
  let ?u = "[Nd 0 D2, Nd 0 D0, Nd 0 D2, Nd 0 D4] @ str_of ''-08-15''"
  have q: "query_params (sample_request (User 2) (Some s)) ''date'' = Some s" for s
    by (simp add: sample_request_def)
  have n: "str_of ''not-a-date'' \<noteq> []" "?u \<noteq> []" "str_of ''2024-08- 5'' \<noteq> []" "str_of '''' = []"
    by simp_all
  have a: "accepted_date_text ?u" "accepted_date_text (str_of ''2024-08- 5'')"
    using strptime_accepts_iff[of ?u] parse_arabic_indic
      strptime_accepts_iff[of "str_of ''2024-08- 5''"] parse_space_day
    by simp_all
  have m: "sample_request (User 2) (Some (str_of ''''))\<lparr>query_params :=
        (query_params (sample_request (User 2) (Some (str_of ''''))))(''date'' := None)\<rparr>
      = sample_request (User 2) None"
    by (auto simp: sample_request_def)
  note T = invalid_date_text_validation_error[OF sample_authenticated q]
  have 1: "\<not> accepted_date_text (str_of ''not-a-date'')
      \<and> period_endpoint WeekEventView sample_today [sample_event] (sample_request (User 2) (Some (str_of ''not-a-date'')))
        = Inr (Response (PDict [(''error'', PStr (str_of ''Invalid date format.''))]) 400, [])
      \<and> day_endpoint sample_today [sample_event] (sample_request (User 2) (Some (str_of ''not-a-date'')))
        = Inr (Response (PDict [(''error'', PStr (str_of ''Invalid date format.''))]) 400, [])"
    using T[of "str_of ''not-a-date''" WeekEventView sample_today "[sample_event]"] n(1) by simp
  have 2: "(\<exists>d qs. period_endpoint MonthEventView sample_today [sample_event]
                (sample_request (User 2) (Some ?u)) = Inr (Response d 200, qs))
      \<and> (\<exists>d qs. day_endpoint sample_today [sample_event]
                (sample_request (User 2) (Some ?u)) = Inr (Response d 200, qs))"
    using T[of ?u MonthEventView sample_today "[sample_event]"] n(2) a(1) by simp
  have 3: "(\<exists>d qs. period_endpoint YearEventView sample_today [sample_event]
                (sample_request (User 2) (Some (str_of ''2024-08- 5''))) = Inr (Response d 200, qs))
      \<and> (\<exists>d qs. day_endpoint sample_today [sample_event]
                (sample_request (User 2) (Some (str_of ''2024-08- 5''))) = Inr (Response d 200, qs))"
    using T[of "str_of ''2024-08- 5''" YearEventView sample_today "[sample_event]"] n(3) a(2) by simp
  have 4: "period_endpoint WeekEventView sample_today [sample_event] (sample_request (User 2) (Some (str_of '''')))
        = period_endpoint WeekEventView sample_today [sample_event] (sample_request (User 2) None)
      \<and> day_endpoint sample_today [sample_event] (sample_request (User 2) (Some (str_of '''')))
        = day_endpoint sample_today [sample_event] (sample_request (User 2) None)
      \<and> period_endpoint WeekEventView sample_today [sample_event] (sample_request (User 2) (Some (str_of '''')))
        \<noteq> Inr (Response (PDict [(''error'', PStr (str_of ''Invalid date format.''))]) 400, [])"
  proof -
    have i: "invalid_date_format = Response (PDict [(''error'', PStr (str_of ''Invalid date format.''))]) 400"
      by (simp add: invalid_date_format_def)
    from T[of "str_of ''''" WeekEventView sample_today "[sample_event]"] n(4)
    have "period_endpoint WeekEventView sample_today [sample_event] (sample_request (User 2) (Some (str_of '''')))
        = period_endpoint WeekEventView sample_today [sample_event] (sample_request (User 2) None)
      \<and> day_endpoint sample_today [sample_event] (sample_request (User 2) (Some (str_of '''')))
        = day_endpoint sample_today [sample_event] (sample_request (User 2) None)
      \<and> (\<forall>qs. period_endpoint WeekEventView sample_today [sample_event]
                (sample_request (User 2) (Some (str_of ''''))) \<noteq> Inr (invalid_date_format, qs))"
      unfolding m by blast
    then show ?thesis unfolding i by blast
  qed
  note c1 = 1[THEN conjunct1] 1[THEN conjunct2, THEN conjunct1] 1[THEN conjunct2, THEN conjunct2]
  note c2 = 2[THEN conjunct1] 2[THEN conjunct2]
  note c3 = 3[THEN conjunct1] 3[THEN conjunct2]
  note c4 = 4[THEN conjunct1] 4[THEN conjunct2, THEN conjunct1] 4[THEN conjunct2, THEN conjunct2]
  show ?thesis
    using sample_authenticated q n a c1 c2 c3 c4 by (intro conjI)
qed

theorem empty_date_text_counterexample:
  "query_params (sample_request (User 2) (Some (str_of ''''))) ''date'' = Some (str_of '''')
   \<and> \<not> accepted_date_text (str_of '''')
   \<and> strptime_date (str_of '''') = Inl ValueError
   \<and> period_endpoint MonthEventView sample_today [] (sample_request (User 2) (Some (str_of '''')))
       \<noteq> Inr (invalid_date_format, [])
   \<and> (\<exists>days queries.
        period_endpoint MonthEventView sample_today [] (sample_request (User 2) (Some (str_of ''''))) =
          Inr (Response (PDict [(''month'', PStr (str_of ''2024-08-01 - 2024-08-31'')),
                                (''days'', PList days)]) 200, queries))"
proof -
  have q: "query_params (sample_request (User 2) (Some (str_of ''''))) ''date'' = Some (str_of '''')"
    by (simp add: sample_request_def)
  have p: "strptime_date (str_of '''') = Inl ValueError"
    by (simp add: strptime_date_def re_defs)
  then have n: "\<not> accepted_date_text (str_of '''')" using strptime_rejects_iff[of "str_of ''''"] by simp
  have t: "str_of ''2024-08-01'' @ str_of '' - '' @ str_of ''2024-08-31'' = str_of ''2024-08-01 - 2024-08-31''"
    by (simp add: str_of_def)
  have r: "period_endpoint MonthEventView sample_today [] (sample_request (User 2) (Some (str_of ''''))) =
      Inr (Response (PDict [(''month'', PStr (str_of ''2024-08-01 - 2024-08-31'')),
                            (''days'', PList (map (day_bucket [])
                               (period_days \<lparr>year = 2024, month = 8, day = 1\<rparr> \<lparr>year = 2024, month = 8, day = 31\<rparr>)))]) 200,
           map (\<lambda>d. [Date_range \<lparr>year = 2024, month = 8, day = 1\<rparr> \<lparr>year = 2024, month = 8, day = 31\<rparr>, Date_exact d])
               (period_days \<lparr>year = 2024, month = 8, day = 1\<rparr> \<lparr>year = 2024, month = 8, day = 31\<rparr>))"
    using BaseEventView_get_report(1)[OF sample_month_data_empty_param, of "[]"] sample_authenticated
      isoformat_2024_08_01 isoformat_2024_08_31 t
    by (simp add: period_endpoint_def)
  show ?thesis using q n p r by (simp add: invalid_date_format_def)
qed

text \<open>
  C3 (as amended).  For every date \<open>D\<close> not after 9999-12-26, the text of \<open>D\<close> parses
  to \<open>D\<close>, and for every text that parses to \<open>D\<close>, \<open>get_start_and_end_of_week\<close>
  returns \<open>(start, end)\<close>: \<open>start\<close> is \<open>D\<close> minus its weekday offset (Monday is 0), it
  is a Monday and not after \<open>D\<close>; \<open>end\<close> is \<open>start\<close> plus six days, and \<open>D\<close> is not
  after \<open>end\<close>.  The text \<open>2024-08-15\<close> gives (2024-08-12, 2024-08-18).
\<close>

theorem week_range_monday_to_sunday:
  assumes "valid_date D"
    and "date_le D \<lparr>year = 9999, month = 12, day = 26\<rparr>"
  shows "strptime_date (isoformat D) = Inr D
       \<and> (\<forall>date_str. strptime_date date_str = Inr D \<longrightarrow>
            (\<exists>start_of_week end_of_week.
                get_start_and_end_of_week date_str = Inr (start_of_week, end_of_week)
              \<and> valid_date start_of_week \<and> valid_date end_of_week
              \<and> date_sub D (weekday D) = Inr start_of_week
              \<and> weekday start_of_week = 0
              \<and> date_le start_of_week D
              \<and> date_add start_of_week 6 = Inr end_of_week
              \<and> date_diff_days end_of_week start_of_week = 6
              \<and> date_le D end_of_week))
       \<and> get_start_and_end_of_week (str_of ''2024-08-15'') =
            Inr (\<lparr>year = 2024, month = 8, day = 12\<rparr>, \<lparr>year = 2024, month = 8, day = 18\<rparr>)"
proof -
  have 1: "strptime_date (isoformat D) = Inr D" using assms(1) by (rule strptime_isoformat)
  have 2: "\<exists>start_of_week end_of_week.
                get_start_and_end_of_week date_str = Inr (start_of_week, end_of_week)
              \<and> valid_date start_of_week \<and> valid_date end_of_week
              \<and> date_sub D (weekday D) = Inr start_of_week
              \<and> weekday start_of_week = 0
              \<and> date_le start_of_week D
              \<and> date_add start_of_week 6 = Inr end_of_week
              \<and> date_diff_days end_of_week start_of_week = 6
              \<and> date_le D end_of_week"
    if p: "strptime_date date_str = Inr D" for date_str
    using week_properties[OF p assms(2)] by blast
  show ?thesis using 1 2 week_2024_08_15 by blast
qed

theorem week_range_monday_to_sunday_witness:
  "valid_date \<lparr>year = 2024, month = 8, day = 15\<rparr>
   \<and> date_le \<lparr>year = 2024, month = 8, day = 15\<rparr> \<lparr>year = 9999, month = 12, day = 26\<rparr>
   \<and> strptime_date (str_of ''2024-08-15'') = Inr \<lparr>year = 2024, month = 8, day = 15\<rparr>
   \<and> (\<exists>start_of_week end_of_week.
          get_start_and_end_of_week (str_of ''2024-08-15'') = Inr (start_of_week, end_of_week)
        \<and> weekday start_of_week = 0
        \<and> date_le start_of_week \<lparr>year = 2024, month = 8, day = 15\<rparr>
        \<and> date_diff_days end_of_week start_of_week = 6)"
proof -
  have l: "date_le \<lparr>year = 2024, month = 8, day = 15\<rparr> \<lparr>year = 9999, month = 12, day = 26\<rparr>"
    by (simp add: date_le_def)
  from week_range_monday_to_sunday[OF valid_2024_08_15 l]
  have p: "strptime_date (str_of ''2024-08-15'') = Inr \<lparr>year = 2024, month = 8, day = 15\<rparr>"
    and a: "\<forall>date_str. strptime_date date_str = Inr \<lparr>year = 2024, month = 8, day = 15\<rparr> \<longrightarrow>
            (\<exists>start_of_week end_of_week.
                get_start_and_end_of_week date_str = Inr (start_of_week, end_of_week)
              \<and> valid_date start_of_week \<and> valid_date end_of_week
              \<and> date_sub \<lparr>year = 2024, month = 8, day = 15\<rparr> (weekday \<lparr>year = 2024, month = 8, day = 15\<rparr>) = Inr start_of_week
              \<and> weekday start_of_week = 0
              \<and> date_le start_of_week \<lparr>year = 2024, month = 8, day = 15\<rparr>
              \<and> date_add start_of_week 6 = Inr end_of_week
              \<and> date_diff_days end_of_week start_of_week = 6
              \<and> date_le \<lparr>year = 2024, month = 8, day = 15\<rparr> end_of_week)"
    unfolding isoformat_2024_08_15 by blast+
  from a p have "\<exists>start_of_week end_of_week.
          get_start_and_end_of_week (str_of ''2024-08-15'') = Inr (start_of_week, end_of_week)
        \<and> weekday start_of_week = 0
        \<and> date_le start_of_week \<lparr>year = 2024, month = 8, day = 15\<rparr>
        \<and> date_diff_days end_of_week start_of_week = 6"
    by blast
  then show ?thesis using valid_2024_08_15 l p by blast
qed

theorem week_range_last_days_counterexample:
  "strptime_date (str_of ''9999-12-31'') = Inr \<lparr>year = 9999, month = 12, day = 31\<rparr>
   \<and> valid_date \<lparr>year = 9999, month = 12, day = 31\<rparr>
   \<and> get_start_and_end_of_week (str_of ''9999-12-31'') = Inl OverflowError"
proof -
  have b: "MAXORDINAL < toordinal \<lparr>year = 9999, month = 12, day = 31\<rparr>
      - weekday \<lparr>year = 9999, month = 12, day = 31\<rparr> + 6"
    by (simp add: weekday_def date_defs)
  show ?thesis
    using parse_9999_12_31 strptime_valid[OF parse_9999_12_31] week_overflow[OF parse_9999_12_31 b]
    by simp
qed

text \<open>
  C4.  For every date \<open>D\<close>, the text of \<open>D\<close> parses to \<open>D\<close>, and for every text that
  parses to \<open>D\<close>, \<open>get_first_and_last_day_of_month\<close> returns \<open>(start, end)\<close>: \<open>start\<close>
  is day 1 of the month of \<open>D\<close>; \<open>end\<close> is the day of that month numbered by the
  month's length in the Gregorian calendar (28 or 29 for February by the leap-year
  rule, 30 or 31 otherwise).  Both are dates, \<open>D\<close> lies between them, no date of the
  month comes before \<open>start\<close> or after \<open>end\<close>, and (except in December 9999) the day
  after \<open>end\<close> is day 1 of the following month.  The texts \<open>2024-02-15\<close> and
  \<open>2023-02-15\<close> give (2024-02-01, 2024-02-29) and (2023-02-01, 2023-02-28).
\<close>

theorem month_range_first_to_last_day:
  assumes "valid_date D"
  shows "strptime_date (isoformat D) = Inr D
       \<and> (\<forall>date_str. strptime_date date_str = Inr D \<longrightarrow>
            get_first_and_last_day_of_month date_str =
              Inr (D\<lparr>day := 1\<rparr>, D\<lparr>day := gregorian_month_length (year D) (month D)\<rparr>))
       \<and> valid_date (D\<lparr>day := 1\<rparr>)
       \<and> valid_date (D\<lparr>day := gregorian_month_length (year D) (month D)\<rparr>)
       \<and> \<not> valid_date (D\<lparr>day := 0\<rparr>)
       \<and> \<not> valid_date (D\<lparr>day := gregorian_month_length (year D) (month D) + 1\<rparr>)
       \<and> date_le (D\<lparr>day := 1\<rparr>) D
       \<and> date_le D (D\<lparr>day := gregorian_month_length (year D) (month D)\<rparr>)
       \<and> ((year D = 9999 \<and> month D = 12)
          \<or> date_add (D\<lparr>day := gregorian_month_length (year D) (month D)\<rparr>) 1 =
              Inr (if month D = 12 then \<lparr>year = year D + 1, month = 1, day = 1\<rparr>
                   else \<lparr>year = year D, month = month D + 1, day = 1\<rparr>))
       \<and> get_first_and_last_day_of_month (str_of ''2024-02-15'') =
           Inr (\<lparr>year = 2024, month = 2, day = 1\<rparr>, \<lparr>year = 2024, month = 2, day = 29\<rparr>)
       \<and> get_first_and_last_day_of_month (str_of ''2023-02-15'') =
           Inr (\<lparr>year = 2023, month = 2, day = 1\<rparr>, \<lparr>year = 2023, month = 2, day = 28\<rparr>)"
proof -
  have p: "strptime_date (isoformat D) = Inr D" using assms by (rule strptime_isoformat)
  note b = parsed_month_bounds[OF p]
  have g: "gregorian_month_length (year D) (month D) = days_in_month (year D) (month D)"
    using days_in_month_length[OF b(1,2)] by simp
  have c1: "\<forall>date_str. strptime_date date_str = Inr D \<longrightarrow>
            get_first_and_last_day_of_month date_str =
              Inr (D\<lparr>day := 1\<rparr>, D\<lparr>day := gregorian_month_length (year D) (month D)\<rparr>)"
    unfolding g using month_result(1) by blast
  have c2: "valid_date (D\<lparr>day := 1\<rparr>)" using p by (rule month_result(2))
  have c3: "valid_date (D\<lparr>day := gregorian_month_length (year D) (month D)\<rparr>)"
    unfolding g using p by (rule month_result(3))
  have c4: "\<not> valid_date (D\<lparr>day := 0\<rparr>)"
    by (simp add: valid_date_def check_date_fields_def)
  have c5: "\<not> valid_date (D\<lparr>day := gregorian_month_length (year D) (month D) + 1\<rparr>)"
    unfolding g by (simp add: valid_date_def check_date_fields_def)
  have c6: "date_le (D\<lparr>day := 1\<rparr>) D" using b(3) by (simp add: date_le_def)
  have c7: "date_le D (D\<lparr>day := gregorian_month_length (year D) (month D)\<rparr>)"
    unfolding g using b(4) by (simp add: date_le_def)
  have c8: "(year D = 9999 \<and> month D = 12)
          \<or> date_add (D\<lparr>day := gregorian_month_length (year D) (month D)\<rparr>) 1 =
              Inr (if month D = 12 then \<lparr>year = year D + 1, month = 1, day = 1\<rparr>
                   else \<lparr>year = year D, month = month D + 1, day = 1\<rparr>)"
    unfolding g using day_after_last_day[OF assms] by blast
  have c9: "get_first_and_last_day_of_month (str_of ''2024-02-15'') =
           Inr (\<lparr>year = 2024, month = 2, day = 1\<rparr>, \<lparr>year = 2024, month = 2, day = 29\<rparr>)"
    unfolding month_result(1)[OF parse_2024_02_15] by (simp add: date_defs)
  have c10: "get_first_and_last_day_of_month (str_of ''2023-02-15'') =
           Inr (\<lparr>year = 2023, month = 2, day = 1\<rparr>, \<lparr>year = 2023, month = 2, day = 28\<rparr>)"
    unfolding month_result(1)[OF parse_2023_02_15] by (simp add: date_defs)
  show ?thesis using p c1 c2 c3 c4 c5 c6 c7 c8 c9 c10 by (intro conjI)
qed

theorem month_range_first_to_last_day_witness:
  "valid_date \<lparr>year = 2024, month = 2, day = 15\<rparr>
   \<and> strptime_date (str_of ''2024-02-15'') = Inr \<lparr>year = 2024, month = 2, day = 15\<rparr>
   \<and> get_first_and_last_day_of_month (str_of ''2024-02-15'') =
        Inr (\<lparr>year = 2024, month = 2, day = 1\<rparr>, \<lparr>year = 2024, month = 2, day = 29\<rparr>)
   \<and> valid_date \<lparr>year = 2024, month = 2, day = 29\<rparr>
   \<and> \<not> valid_date \<lparr>year = 2024, month = 2, day = 30\<rparr>
   \<and> date_add \<lparr>year = 2024, month = 2, day = 29\<rparr> 1 = Inr \<lparr>year = 2024, month = 3, day = 1\<rparr>"
  using month_range_first_to_last_day[OF valid_2024_02_15] valid_2024_02_15
  by (simp add: gregorian_month_length_def gregorian_leap_year_def isoformat_2024_02_15)

text \<open>
  C5.  For one table of events, one current date and one \<open>date\<close> parameter, any two
  authenticated requesters receive the same day, week, month and year reports.  When
  the date of the request is \<open>D\<close> (the parameter parsed, or the current date when the
  parameter is absent or empty), the day report has status 200 and lists all events of
  the table on \<open>D\<close>; and, the stored dates being dates of the calendar (and \<open>D\<close> not
  after 9999-12-26 for the week report), the report of the period has status 200 and
  the events in its buckets are exactly the events of the table from the first to the
  last day of the period of \<open>D\<close>.  The creator of an event and the requester play no part.
\<close>

theorem reports_independent_of_requester:
  assumes "IsAuthenticated req1" and "IsAuthenticated req2"
    and "query_params req1 ''date'' = query_params req2 ''date''"
  shows "period_endpoint view current_date rows req1 = period_endpoint view current_date rows req2
       \<and> day_endpoint current_date rows req1 = day_endpoint current_date rows req2
       \<and> (\<forall>D. (if truthy (query_params req2 ''date'')
                then strptime_date (the (query_params req2 ''date'')) = Inr D
                else D = current_date \<and> valid_date current_date) \<longrightarrow>
              (\<exists>body queries.
                  day_endpoint current_date rows req2 = Inr (Response body 200, queries)
                \<and> bucket_events body = map to_representation (filter (\<lambda>e. date e = D) rows))
            \<and> ((\<forall>e\<in>set rows. valid_date (date e))
                 \<and> (view = WeekEventView \<longrightarrow> date_le D \<lparr>year = 9999, month = 12, day = 26\<rparr>) \<longrightarrow>
                (\<exists>a b body queries.
                    date_range_func view (isoformat D) = Inr (a, b) \<and> date_le a D \<and> date_le D b
                  \<and> period_endpoint view current_date rows req2 = Inr (Response body 200, queries)
                  \<and> set (report_events body)
                      = to_representation ` {e \<in> set rows. date_le a (date e) \<and> date_le (date e) b})))"
proof -
  have 1: "period_endpoint view current_date rows req1 = period_endpoint view current_date rows req2"
    using assms by (rule period_endpoint_user_independent)
  have 2: "day_endpoint current_date rows req1 = day_endpoint current_date rows req2"
    using assms by (rule day_endpoint_user_independent)
  have 3: "\<exists>body queries.
                  day_endpoint current_date rows req2 = Inr (Response body 200, queries)
                \<and> bucket_events body = map to_representation (filter (\<lambda>e. date e = D) rows)"
    if r: "if truthy (query_params req2 ''date'')
                then strptime_date (the (query_params req2 ''date'')) = Inr D
                else D = current_date \<and> valid_date current_date" for D
  proof (cases "truthy (query_params req2 ''date'')")
    case True
    then obtain s where s: "query_params req2 ''date'' = Some s"
      by (cases "query_params req2 ''date''") simp_all
    with r True have "strptime_date s = Inr D" by simp
    from DayEventView_get_parsed[OF s this, of current_date rows] show ?thesis
      using assms(2) by (simp add: day_endpoint_def bucket_events_def pydict_get_def)
  next
    case False
    with r have "D = current_date" by simp
    with DayEventView_get_today[OF False, of current_date rows] show ?thesis
      using assms(2) by (simp add: day_endpoint_def bucket_events_def pydict_get_def)
  qed
  have 4: "\<exists>a b body queries.
                    date_range_func view (isoformat D) = Inr (a, b) \<and> date_le a D \<and> date_le D b
                  \<and> period_endpoint view current_date rows req2 = Inr (Response body 200, queries)
                  \<and> set (report_events body)
                      = to_representation ` {e \<in> set rows. date_le a (date e) \<and> date_le (date e) b}"
    if r: "if truthy (query_params req2 ''date'')
                then strptime_date (the (query_params req2 ''date'')) = Inr D
                else D = current_date \<and> valid_date current_date"
      and v: "\<forall>e\<in>set rows. valid_date (date e)"
      and w: "view = WeekEventView \<longrightarrow> date_le D \<lparr>year = 9999, month = 12, day = 26\<rparr>" for D
  proof -
    from get_event_data_resolved[OF r w] obtain a b where
      g: "get_event_data current_date (query_params req2 ''date'') (date_range_func view)
            = Inr (Inr ([Date_range a b], (a, b)))"
      and c: "date_range_func view (isoformat D) = Inr (a, b)" "date_le a D" "date_le D b"
      by blast
    from report_events_period[OF g v] obtain body qs where
      "BaseEventView_get view current_date rows req2 = Inr (Response body 200, qs)"
      "set (report_events body) = to_representation ` {e \<in> set rows. date_le a (date e) \<and> date_le (date e) b}"
      by blast
    then show ?thesis using c assms(2) by (auto simp: period_endpoint_def)
  qed
  show ?thesis using 1 2 3 4 by blast
qed

theorem reports_independent_of_requester_witness:
  "IsAuthenticated (sample_request (User 1) (Some (str_of ''2024-08-13'')))
   \<and> IsAuthenticated (sample_request (User 2) (Some (str_of ''2024-08-13'')))
   \<and> query_params (sample_request (User 1) (Some (str_of ''2024-08-13''))) ''date''
       = query_params (sample_request (User 2) (Some (str_of ''2024-08-13''))) ''date''
   \<and> user (sample_request (User 1) (Some (str_of ''2024-08-13''))) = User 1
   \<and> user (sample_request (User 2) (Some (str_of ''2024-08-13''))) = User 2
   \<and> creator sample_event = 1
   \<and> truthy (query_params (sample_request (User 2) (Some (str_of ''2024-08-13''))) ''date'')
   \<and> strptime_date (the (query_params (sample_request (User 2) (Some (str_of ''2024-08-13''))) ''date''))
       = Inr \<lparr>year = 2024, month = 8, day = 13\<rparr>
   \<and> valid_date (date sample_event)
   \<and> date_le \<lparr>year = 2024, month = 8, day = 13\<rparr> \<lparr>year = 9999, month = 12, day = 26\<rparr>
   \<and> period_endpoint WeekEventView sample_today [sample_event] (sample_request (User 1) (Some (str_of ''2024-08-13'')))
       = period_endpoint WeekEventView sample_today [sample_event] (sample_request (User 2) (Some (str_of ''2024-08-13'')))
   \<and> period_endpoint MonthEventView sample_today [sample_event] (sample_request (User 1) (Some (str_of ''2024-08-13'')))
       = period_endpoint MonthEventView sample_today [sample_event] (sample_request (User 2) (Some (str_of ''2024-08-13'')))
   \<and> period_endpoint YearEventView sample_today [sample_event] (sample_request (User 1) (Some (str_of ''2024-08-13'')))
       = period_endpoint YearEventView sample_today [sample_event] (sample_request (User 2) (Some (str_of ''2024-08-13'')))
   \<and> day_endpoint sample_today [sample_event] (sample_request (User 1) (Some (str_of ''2024-08-13'')))
       = day_endpoint sample_today [sample_event] (sample_request (User 2) (Some (str_of ''2024-08-13'')))
   \<and> (\<exists>body queries.
         day_endpoint sample_today [sample_event] (sample_request (User 2) (Some (str_of ''2024-08-13'')))
           = Inr (Response body 200, queries)
       \<and> bucket_events body = [to_representation sample_event])
   \<and> (\<exists>body queries.
         period_endpoint WeekEventView sample_today [sample_event] (sample_request (User 2) (Some (str_of ''2024-08-13'')))
           = Inr (Response body 200, queries)
       \<and> set (report_events body) = {to_representation sample_event})
   \<and> (\<exists>body queries.
         period_endpoint MonthEventView sample_today [sample_event] (sample_request (User 2) (Some (str_of ''2024-08-13'')))
           = Inr (Response body 200, queries)
       \<and> set (report_events body) = {to_representation sample_event})
   \<and> (\<exists>body queries.
         period_endpoint YearEventView sample_today [sample_event] (sample_request (User 2) (Some (str_of ''2024-08-13'')))
           = Inr (Response body 200, queries)
       \<and> set (report_events body) = {to_representation sample_event})"
proof -
  let ?r1 = "sample_request (User 1) (Some (str_of ''2024-08-13''))"
  let ?r2 = "sample_request (User 2) (Some (str_of ''2024-08-13''))"
  let ?D = "\<lparr>year = 2024, month = 8, day = 13\<rparr>"
  have q: "query_params ?r1 ''date'' = query_params ?r2 ''date''"
    by (simp add: sample_request_def)
  have u: "user ?r1 = User 1" "user ?r2 = User 2" "creator sample_event = 1"
    by (simp_all add: sample_request_def sample_event_def)
  have t: "truthy (query_params ?r2 ''date'')" by (simp add: sample_request_def)
  have s: "strptime_date (the (query_params ?r2 ''date'')) = Inr ?D"
    by (simp add: sample_request_def parse_2024_08_13)
  have d: "date sample_event = ?D" by (simp add: sample_event_def)
  have v: "valid_date (date sample_event)"
    unfolding d using parse_2024_08_13 by (rule strptime_valid)
  have l: "date_le ?D \<lparr>year = 9999, month = 12, day = 26\<rparr>" by (simp add: date_le_def)
  have h: "if truthy (query_params ?r2 ''date'') then strptime_date (the (query_params ?r2 ''date'')) = Inr ?D
           else ?D = sample_today \<and> valid_date sample_today"
    using t s by simp
  note T = reports_independent_of_requester[OF sample_authenticated_1 sample_authenticated q,
      of _ sample_today "[sample_event]"]
  have e: "period_endpoint view sample_today [sample_event] ?r1
      = period_endpoint view sample_today [sample_event] ?r2" for view
    using T[of view] by blast
  have e': "day_endpoint sample_today [sample_event] ?r1 = day_endpoint sample_today [sample_event] ?r2"
    using T[of WeekEventView] by blast
  have c: "(\<exists>body queries.
                  day_endpoint sample_today [sample_event] ?r2 = Inr (Response body 200, queries)
                \<and> bucket_events body = map to_representation (filter (\<lambda>e. date e = ?D) [sample_event]))
            \<and> ((\<forall>e\<in>set [sample_event]. valid_date (date e))
                 \<and> (view = WeekEventView \<longrightarrow> date_le ?D \<lparr>year = 9999, month = 12, day = 26\<rparr>) \<longrightarrow>
                (\<exists>a b body queries.
                    date_range_func view (isoformat ?D) = Inr (a, b) \<and> date_le a ?D \<and> date_le ?D b
                  \<and> period_endpoint view sample_today [sample_event] ?r2 = Inr (Response body 200, queries)
                  \<and> set (report_events body)
                      = to_representation ` {e \<in> set [sample_event]. date_le a (date e) \<and> date_le (date e) b}))"
    for view
    using T[of view] h by blast
  have day: "\<exists>body queries.
         day_endpoint sample_today [sample_event] ?r2 = Inr (Response body 200, queries)
       \<and> bucket_events body = [to_representation sample_event]"
    using c[of WeekEventView] by (simp add: d)
  have p: "\<exists>body queries.
         period_endpoint view sample_today [sample_event] ?r2 = Inr (Response body 200, queries)
       \<and> set (report_events body) = {to_representation sample_event}" for view
  proof -
    from c[of view] v l obtain a b body queries where
      r: "date_le a ?D" "date_le ?D b"
        "period_endpoint view sample_today [sample_event] ?r2 = Inr (Response body 200, queries)"
        "set (report_events body)
           = to_representation ` {e \<in> set [sample_event]. date_le a (date e) \<and> date_le (date e) b}"
      by auto
    have "{e \<in> set [sample_event]. date_le a (date e) \<and> date_le (date e) b} = {sample_event}"
      using r(1,2) by (auto simp: d)
    with r(3,4) show ?thesis by auto
  qed
  show ?thesis
    using sample_authenticated_1 sample_authenticated q u t s v l e e' day p
    by (intro conjI)
qed

text \<open>
  C6.  In a table that satisfies its constraints, when the requester is the user \<open>u\<close>
  and the event \<open>E\<close> of the table has another creator, the retrieve, update (PUT or
  PATCH) and delete requests for the \<open>id\<close> of \<open>E\<close> all answer 404 and leave the table as
  it was: the queryset of the view holds only the requester's events.  The object-level
  permission holds for an event exactly when its creator is the requester.
\<close>

theorem other_users_event_is_not_found:
  assumes "user req = User u" and "E \<in> set rows" and "creator E \<noteq> u" and "table_ok rows"
  shows "EventRetrieveUpdateDeleteView_get rows req (id_event E) = Inr (not_found, rows)
       \<and> EventRetrieveUpdateDeleteView_update P partial rows req (id_event E) = Inr (not_found, rows)
       \<and> EventRetrieveUpdateDeleteView_put P rows req (id_event E) = Inr (not_found, rows)
       \<and> EventRetrieveUpdateDeleteView_delete rows req (id_event E) = Inr (not_found, rows)
       \<and> not_found = Response (PDict [(''detail'', PStr (str_of ''Not found.''))]) 404
       \<and> set (evaluate rows (get_queryset req)) = {e \<in> set rows. creator e = u}
       \<and> (\<forall>obj. has_object_permission req obj \<longleftrightarrow> creator obj = u)"
proof -
  note g = get_object_not_owner[OF assms]
  note p = permissions_of_user[OF assms(1)]
  have "set (evaluate rows (get_queryset req)) = {e \<in> set rows. creator e = u}"
    using assms(1) by (auto simp: evaluate_def get_queryset_def)
  moreover have "\<forall>obj. has_object_permission req obj \<longleftrightarrow> creator obj = u"
    using assms(1) by (auto simp: has_object_permission_def)
  ultimately show ?thesis
    using g p
    by (simp add: EventRetrieveUpdateDeleteView_get_def EventRetrieveUpdateDeleteView_update_def
        EventRetrieveUpdateDeleteView_put_def EventRetrieveUpdateDeleteView_delete_def not_found_def)
qed

theorem other_users_event_is_not_found_witness:
  "user (sample_request (User 2) None) = User 2
   \<and> sample_event \<in> set [sample_event]
   \<and> creator sample_event \<noteq> 2
   \<and> table_ok [sample_event]
   \<and> EventRetrieveUpdateDeleteView_get [sample_event] (sample_request (User 2) None) 11
        = Inr (Response (PDict [(''detail'', PStr (str_of ''Not found.''))]) 404, [sample_event])
   \<and> EventRetrieveUpdateDeleteView_delete [sample_event] (sample_request (User 2) None) 11
        = Inr (Response (PDict [(''detail'', PStr (str_of ''Not found.''))]) 404, [sample_event])
   \<and> EventRetrieveUpdateDeleteView_put sample_parsers [sample_event] (sample_request (User 2) None) 11
        = Inr (Response (PDict [(''detail'', PStr (str_of ''Not found.''))]) 404, [sample_event])"
proof -
  have h: "user (sample_request (User 2) None) = User 2" "sample_event \<in> set [sample_event]"
    "creator sample_event \<noteq> 2" "table_ok [sample_event]"
    by (simp_all add: sample_request_def sample_event_def table_ok_def)
  have i: "id_event sample_event = 11" by (simp add: sample_event_def)
  from other_users_event_is_not_found[OF h, of sample_parsers] h
  show ?thesis unfolding i by simp
qed

text \<open>
  C7.  For every create request of an authenticated user \<open>u\<close>, every event the request
  adds to the table has the creator \<open>u\<close>.  The serializer has no field \<open>creator\<close>:
  whatever the request body holds under the key \<open>creator\<close>, or under any other key that
  is not one of the five writable fields, the result of the request is the same.
\<close>

theorem created_event_belongs_to_requester:
  assumes "user req = User u"
  shows "(\<forall>body status rows'.
            EventCreateView_post P new_pkid new_id rows req = Inr (Response body status, rows') \<longrightarrow>
              (status = 400 \<and> rows' = rows)
            \<or> (status = 201 \<and> (\<exists>e. rows' = rows @ [e] \<and> body = to_representation e
                   \<and> creator e = u \<and> pkid e = new_pkid \<and> id_event e = new_id)))
       \<and> (\<forall>v. EventCreateView_post P new_pkid new_id rows (req\<lparr>data := (data req)(''creator'' := v)\<rparr>)
              = EventCreateView_post P new_pkid new_id rows req)
       \<and> (\<forall>k v. k \<notin> set writable_keys \<longrightarrow>
              EventCreateView_post P new_pkid new_id rows (req\<lparr>data := (data req)(k := v)\<rparr>)
              = EventCreateView_post P new_pkid new_id rows req)"
proof -
  have c: "''creator'' \<notin> set writable_keys" by (simp add: writable_keys_def)
  show ?thesis
    using EventCreateView_post_cases[OF assms, of P new_pkid new_id rows]
      EventCreateView_post_ignores[OF c, of P new_pkid new_id rows req]
      EventCreateView_post_ignores[of _ P new_pkid new_id rows req]
    by blast
qed

theorem created_event_belongs_to_requester_witness:
  "user (sample_request (User 2) None\<lparr>data := sample_body\<rparr>) = User 2
   \<and> sample_body ''creator'' = Some (PStr (str_of ''1''))
   \<and> (\<exists>e. EventCreateView_post sample_parsers 2 12 [sample_event] (sample_request (User 2) None\<lparr>data := sample_body\<rparr>)
             = Inr (Response (to_representation e) 201, [sample_event, e])
          \<and> creator e = 2 \<and> name e = str_of ''review'')"
proof -
  have h: "user (sample_request (User 2) None\<lparr>data := sample_body\<rparr>) = User 2"
    by (simp add: sample_request_def)
  have b: "sample_body ''creator'' = Some (PStr (str_of ''1''))" by (simp add: sample_body_def)
  let ?e = "\<lparr>pkid = 2, id_event = 12, creator = 2, name = str_of ''review'', description = str_of ''weekly'',
      date = \<lparr>year = 2024, month = 8, day = 14\<rparr>, start_event = (10, 0, 0), end_event = (11, 0, 0)\<rparr>"
  have r: "EventCreateView_post sample_parsers 2 12 [sample_event] (sample_request (User 2) None\<lparr>data := sample_body\<rparr>)
      = Inr (Response (to_representation ?e) 201, [sample_event, ?e])"
    by (simp add: EventCreateView_post_def IsAuthenticated_def is_authenticated_def sample_request_def
        sample_validated perform_create_def insert_row_def sample_event_def)
  from created_event_belongs_to_requester[OF h, of sample_parsers 2 12 "[sample_event]"] r
  have "creator ?e = 2" by simp
  then show ?thesis using h b r by (intro conjI exI[of _ ?e]) simp_all
qed

text \<open>
  C8.  The day endpoint resolves one date: the parsed \<open>date\<close> parameter, or the
  server's current date when the parameter is absent (or empty).  Its response has
  exactly the two keys \<open>day\<close> and \<open>events\<close>; \<open>events\<close> holds the serialized events of the
  table whose date equals that date and no others; there is no list of buckets and no
  key for a period label, unlike the response of the week, month and year views.  Its
  only other response is the validation error, for a parameter that does not parse.
\<close>

theorem day_report_is_flat:
  assumes "IsAuthenticated req"
  shows "(\<forall>date_str D. query_params req ''date'' = Some date_str \<and> strptime_date date_str = Inr D \<longrightarrow>
            day_endpoint current_date rows req =
              Inr (Response (PDict [(''day'', PStr date_str),
                     (''events'', PList (map to_representation (filter (\<lambda>e. date e = D) rows)))]) 200,
                   [[Date_exact D]]))
       \<and> (\<not> truthy (query_params req ''date'') \<longrightarrow>
            day_endpoint current_date rows req =
              Inr (Response (PDict [(''day'', PDate current_date),
                     (''events'', PList (map to_representation (filter (\<lambda>e. date e = current_date) rows)))]) 200,
                   [[Date_exact current_date]]))
       \<and> (\<exists>data status queries. day_endpoint current_date rows req = Inr (Response data status, queries)
            \<and> (status = 200 \<and> pydict_keys data = [''day'', ''events''] \<and> length queries = 1
               \<or> Response data status = invalid_date_format \<and> queries = []))
       \<and> (\<forall>view data status queries.
             period_endpoint view current_date rows req = Inr (Response data status, queries) \<and> status = 200
             \<longrightarrow> pydict_keys data = [period_name view, ''days''])"
proof -
  have 1: "\<forall>date_str D. query_params req ''date'' = Some date_str \<and> strptime_date date_str = Inr D \<longrightarrow>
            day_endpoint current_date rows req =
              Inr (Response (PDict [(''day'', PStr date_str),
                     (''events'', PList (map to_representation (filter (\<lambda>e. date e = D) rows)))]) 200,
                   [[Date_exact D]])"
    using assms DayEventView_get_parsed by (simp add: day_endpoint_def)
  have 2: "\<not> truthy (query_params req ''date'') \<longrightarrow>
            day_endpoint current_date rows req =
              Inr (Response (PDict [(''day'', PDate current_date),
                     (''events'', PList (map to_representation (filter (\<lambda>e. date e = current_date) rows)))]) 200,
                   [[Date_exact current_date]])"
    using assms DayEventView_get_today by (simp add: day_endpoint_def)
  have 3: "\<exists>data status queries. day_endpoint current_date rows req = Inr (Response data status, queries)
            \<and> (status = 200 \<and> pydict_keys data = [''day'', ''events''] \<and> length queries = 1
               \<or> Response data status = invalid_date_format \<and> queries = [])"
  proof (cases "truthy (query_params req ''date'')")
    case False
    with 2 show ?thesis by (simp add: pydict_keys_def)
  next
    case True
    then obtain s where s: "query_params req ''date'' = Some s" "s \<noteq> []"
      by (cases "query_params req ''date''") auto
    show ?thesis
    proof (cases "strptime_date s")
      case (Inl e)
      from DayEventView_get_invalid[OF s Inl] assms show ?thesis
        by (simp add: day_endpoint_def invalid_date_format_def)
    next
      case (Inr D)
      with 1 s show ?thesis by (simp add: pydict_keys_def)
    qed
  qed
  have 4: "\<forall>view data status queries.
             period_endpoint view current_date rows req = Inr (Response data status, queries) \<and> status = 200
             \<longrightarrow> pydict_keys data = [period_name view, ''days'']"
    using assms
    by (auto simp: period_endpoint_def BaseEventView_get_def Let_def pydict_keys_def get_event_data_def
          invalid_date_format_def split: sum.splits prod.splits if_splits py_exception.splits)
  show ?thesis using 1 2 3 4 by blast
qed

theorem day_report_is_flat_witness:
  "IsAuthenticated (sample_request (User 2) (Some (str_of ''2024-8-13'')))
   \<and> query_params (sample_request (User 2) (Some (str_of ''2024-8-13''))) ''date'' = Some (str_of ''2024-8-13'')
   \<and> strptime_date (str_of ''2024-8-13'') = Inr \<lparr>year = 2024, month = 8, day = 13\<rparr>
   \<and> day_endpoint sample_today [sample_event] (sample_request (User 2) (Some (str_of ''2024-8-13''))) =
        Inr (Response (PDict [(''day'', PStr (str_of ''2024-8-13'')),
                              (''events'', PList [to_representation sample_event])]) 200,
             [[Date_exact \<lparr>year = 2024, month = 8, day = 13\<rparr>]])"
proof -
  have q: "query_params (sample_request (User 2) (Some (str_of ''2024-8-13''))) ''date'' = Some (str_of ''2024-8-13'')"
    by (simp add: sample_request_def)
  from day_report_is_flat[OF sample_authenticated, of "Some (str_of ''2024-8-13'')" sample_today "[sample_event]"]
  have "day_endpoint sample_today [sample_event] (sample_request (User 2) (Some (str_of ''2024-8-13''))) =
              Inr (Response (PDict [(''day'', PStr (str_of ''2024-8-13'')),
                     (''events'', PList (map to_representation
                        (filter (\<lambda>e. date e = \<lparr>year = 2024, month = 8, day = 13\<rparr>) [sample_event])))]) 200,
                   [[Date_exact \<lparr>year = 2024, month = 8, day = 13\<rparr>]])"
    using q parse_2024_8_13 by blast
  then show ?thesis using sample_authenticated q parse_2024_8_13 by (simp add: sample_event_def)
qed

text \<open>
  C9.  In a table that satisfies its constraints, an update request (PUT, and PATCH
  as well) leaves the \<open>pkid\<close>, the \<open>id\<close> and the creator of every event as they were,
  whatever the request body holds; events other than the addressed one are not changed
  at all.  The serializer reads the body only under \<open>name\<close>, \<open>description\<close>, \<open>date\<close>,
  \<open>start_event\<close> and \<open>end_event\<close>: a value under any other key does not change the
  result.
\<close>

theorem update_keeps_creator_id_pkid:
  assumes "table_ok rows"
    and "EventRetrieveUpdateDeleteView_update P partial rows req ident = Inr (resp, rows')"
  shows "map pkid rows' = map pkid rows
       \<and> map id_event rows' = map id_event rows
       \<and> map creator rows' = map creator rows
       \<and> (\<forall>n<length rows. id_event (rows ! n) \<noteq> ident \<longrightarrow> rows' ! n = rows ! n)
       \<and> (\<forall>k v. k \<notin> set writable_keys \<longrightarrow>
             EventRetrieveUpdateDeleteView_update P partial rows (req\<lparr>data := (data req)(k := v)\<rparr>) ident
             = EventRetrieveUpdateDeleteView_update P partial rows req ident)
       \<and> writable_keys = [''name'', ''description'', ''date'', ''start_event'', ''end_event'']
       \<and> EventRetrieveUpdateDeleteView_put P = EventRetrieveUpdateDeleteView_update P False"
proof -
  note k = update_keeps[OF assms]
  have 1: "map pkid rows' = map pkid rows" "map id_event rows' = map id_event rows"
    "map creator rows' = map creator rows"
    using k by (simp_all add: list_eq_iff_nth_eq)
  have 2: "\<forall>n<length rows. id_event (rows ! n) \<noteq> ident \<longrightarrow> rows' ! n = rows ! n"
    using k(2) by blast
  have 3: "\<forall>k v. k \<notin> set writable_keys \<longrightarrow>
             EventRetrieveUpdateDeleteView_update P partial rows (req\<lparr>data := (data req)(k := v)\<rparr>) ident
             = EventRetrieveUpdateDeleteView_update P partial rows req ident"
    using update_ignores by blast
  have 4: "EventRetrieveUpdateDeleteView_put P = EventRetrieveUpdateDeleteView_update P False"
    by (simp add: EventRetrieveUpdateDeleteView_put_def)
  show ?thesis using 1 2 3 4 by (simp add: writable_keys_def)
qed

theorem update_keeps_creator_id_pkid_witness:
  "table_ok [sample_event]
   \<and> EventRetrieveUpdateDeleteView_update sample_parsers False [sample_event]
        (sample_request (User 1) None\<lparr>data := sample_body(''pkid'' \<mapsto> PStr (str_of ''7''), ''id'' \<mapsto> PUuid 99)\<rparr>) 11
      = Inr (Response (to_representation (sample_event\<lparr>name := str_of ''review'', description := str_of ''weekly'',
                 date := \<lparr>year = 2024, month = 8, day = 14\<rparr>, start_event := (10, 0, 0),
                 end_event := (11, 0, 0)\<rparr>)) 200,
             [sample_event\<lparr>name := str_of ''review'', description := str_of ''weekly'',
                 date := \<lparr>year = 2024, month = 8, day = 14\<rparr>, start_event := (10, 0, 0),
                 end_event := (11, 0, 0)\<rparr>])
   \<and> map creator [sample_event\<lparr>name := str_of ''review'', description := str_of ''weekly'',
                 date := \<lparr>year = 2024, month = 8, day = 14\<rparr>, start_event := (10, 0, 0),
                 end_event := (11, 0, 0)\<rparr>] = map creator [sample_event]"
proof -
  let ?req = "sample_request (User 1) None\<lparr>data := sample_body(''pkid'' \<mapsto> PStr (str_of ''7''), ''id'' \<mapsto> PUuid 99)\<rparr>"
  let ?e = "sample_event\<lparr>name := str_of ''review'', description := str_of ''weekly'',
                 date := \<lparr>year = 2024, month = 8, day = 14\<rparr>, start_event := (10, 0, 0),
                 end_event := (11, 0, 0)\<rparr>"
  have t: "table_ok [sample_event]" by (simp add: table_ok_def)
  have g: "get_object [sample_event] ?req 11 = Inr (Inr sample_event)"
    by (simp add: get_object_def evaluate_def get_queryset_def has_object_permission_def
        sample_request_def sample_event_def)
  have d: "data ?req = sample_body(''pkid'' \<mapsto> PStr (str_of ''7''), ''id'' \<mapsto> PUuid 99)" by simp
  have r: "EventRetrieveUpdateDeleteView_update sample_parsers False [sample_event] ?req 11
      = Inr (Response (to_representation ?e) 200, [?e])"
    unfolding EventRetrieveUpdateDeleteView_update_def g d sample_validated_owner
    by (simp add: check_permissions_def IsAuthenticated_def has_permission_def is_authenticated_def
        sample_request_def serializer_update_def save_row_def Let_def)
  from update_keeps_creator_id_pkid[OF t r] have "map creator [?e] = map creator [sample_event]"
    by blast
  then show ?thesis using t r by blast
qed

text \<open>
  C10.  When the \<open>date\<close> parameter of the day endpoint parses, the \<open>day\<close> field of the
  response is the supplied text itself, not the parsed date: the text \<open>2024-8-5\<close>
  parses to 5 August 2024, whose own text is \<open>2024-08-05\<close>, and is returned as
  \<open>2024-8-5\<close>.  When no \<open>date\<close> parameter is supplied, the \<open>day\<close> field is the
  server's current date, a date value.
\<close>

theorem day_field_echoes_parameter:
  assumes "IsAuthenticated req"
  shows "(\<forall>date_str D. query_params req ''date'' = Some date_str \<and> strptime_date date_str = Inr D \<longrightarrow>
            (\<exists>data queries. day_endpoint current_date rows req = Inr (Response data 200, queries)
               \<and> pydict_get data ''day'' = Some (PStr date_str)))
       \<and> (query_params req ''date'' = None \<longrightarrow>
            (\<exists>data queries. day_endpoint current_date rows req = Inr (Response data 200, queries)
               \<and> pydict_get data ''day'' = Some (PDate current_date)))
       \<and> strptime_date (str_of ''2024-8-5'') = Inr \<lparr>year = 2024, month = 8, day = 5\<rparr>
       \<and> isoformat \<lparr>year = 2024, month = 8, day = 5\<rparr> = str_of ''2024-08-05''"
proof -
  have 1: "\<forall>date_str D. query_params req ''date'' = Some date_str \<and> strptime_date date_str = Inr D \<longrightarrow>
            (\<exists>data queries. day_endpoint current_date rows req = Inr (Response data 200, queries)
               \<and> pydict_get data ''day'' = Some (PStr date_str))"
    using assms DayEventView_get_parsed[of req _ _ current_date rows]
    by (simp add: day_endpoint_def pydict_get_def)
  have 2: "query_params req ''date'' = None \<longrightarrow>
            (\<exists>data queries. day_endpoint current_date rows req = Inr (Response data 200, queries)
               \<and> pydict_get data ''day'' = Some (PDate current_date))"
    using assms DayEventView_get_today[of req current_date rows]
    by (simp add: day_endpoint_def pydict_get_def)
  show ?thesis using 1 2 parse_2024_8_5 isoformat_2024_08_05 by blast
qed

theorem day_field_echoes_parameter_witness:
  "IsAuthenticated (sample_request (User 2) (Some (str_of ''2024-8-5'')))
   \<and> query_params (sample_request (User 2) (Some (str_of ''2024-8-5''))) ''date'' = Some (str_of ''2024-8-5'')
   \<and> strptime_date (str_of ''2024-8-5'') = Inr \<lparr>year = 2024, month = 8, day = 5\<rparr>
   \<and> (\<exists>data queries.
        day_endpoint sample_today [sample_event] (sample_request (User 2) (Some (str_of ''2024-8-5'')))
          = Inr (Response data 200, queries)
        \<and> pydict_get data ''day'' = Some (PStr (str_of ''2024-8-5'')))
   \<and> PStr (str_of ''2024-8-5'') \<noteq> PStr (isoformat \<lparr>year = 2024, month = 8, day = 5\<rparr>)"
proof -
  have q: "query_params (sample_request (User 2) (Some (str_of ''2024-8-5''))) ''date'' = Some (str_of ''2024-8-5'')"
    by (simp add: sample_request_def)
  from day_field_echoes_parameter[OF sample_authenticated, of "Some (str_of ''2024-8-5'')" sample_today "[sample_event]"]
  have "\<exists>data queries.
        day_endpoint sample_today [sample_event] (sample_request (User 2) (Some (str_of ''2024-8-5'')))
          = Inr (Response data 200, queries)
        \<and> pydict_get data ''day'' = Some (PStr (str_of ''2024-8-5''))"
    using q parse_2024_8_5 by blast
  then show ?thesis using sample_authenticated q parse_2024_8_5 isoformat_2024_08_05 by simp
qed

end
